theory Spec2Isabelle
  imports Main
begin

section \<open>JavaScript values, the global object and exceptions\<close>

text \<open>
  The development follows the canonical variant of the adapter (the first script of
  \<^verbatim>\<open>src/gm4-polyfill.js\<close>, lines 1 to 234).

  A JavaScript value is a primitive or an object. An object is given by its own properties
  (a map from names to values) and, when it is callable, by the code it runs. Numbers are
  the integers (NaN and fractions are left out), objects are identified with their
  contents, and the prototype chain is not modelled: none of the names the installer reads
  (\<^verbatim>\<open>log\<close>, \<^verbatim>\<open>info\<close>, \<^verbatim>\<open>addStyle\<close>, ...) is inherited from a built-in prototype.
  The global object and \<^verbatim>\<open>window\<close> are the same object, so a bare identifier such as
  \<^verbatim>\<open>GM\<close> or \<^verbatim>\<open>GM_info\<close> is a property of \<^verbatim>\<open>window\<close>.
\<close>

type_synonym name = string

datatype val =
    Undefined
  | Null
  | Bool bool
  | Num int
  | Str string
  | Obj "code option" "name \<Rightarrow> val option"
and code =
    Native nat               \<comment> \<open>a function of the host, by its number\<close>
  | Bound_console name       \<comment> \<open>\<^verbatim>\<open>console.log.bind(console)\<close> and its siblings\<close>
  | Polyfill name            \<comment> \<open>a method of the \<^verbatim>\<open>polyfills\<close> object\<close>
  | Forward val              \<comment> \<open>\<^verbatim>\<open>(...args) => utils.promisify(old, ...args)\<close>, with its \<^verbatim>\<open>old\<close>\<close>

datatype exn =
    ReferenceError name
  | TypeError
  | Error string
  | Thrown val

type_synonym window = "name \<Rightarrow> val option"

text \<open>ToBoolean, as \<^verbatim>\<open>if (x)\<close>, \<^verbatim>\<open>!x\<close> and \<^verbatim>\<open>x && y\<close> apply it.\<close>

fun truthy :: "val \<Rightarrow> bool" where
  "truthy Undefined = False"
| "truthy Null = False"
| "truthy (Bool b) = b"
| "truthy (Num n) = (n \<noteq> 0)"
| "truthy (Str s) = (s \<noteq> [])"
| "truthy (Obj c p) = True"

text \<open>\<^verbatim>\<open>typeof x === 'undefined'\<close>.\<close>

fun is_undefined :: "val \<Rightarrow> bool" where
  "is_undefined Undefined = True"
| "is_undefined v = False"

text \<open>A bare identifier: a ReferenceError when the global object has no such property.\<close>

definition lookup_global :: "window \<Rightarrow> name \<Rightarrow> exn + val" where
  "lookup_global w x = (case w x of None \<Rightarrow> Inl (ReferenceError x) | Some v \<Rightarrow> Inr v)"

text \<open>\<^verbatim>\<open>window[x]\<close>: a missing property reads as undefined.\<close>

definition window_get :: "window \<Rightarrow> name \<Rightarrow> val" where
  "window_get w x = (case w x of None \<Rightarrow> Undefined | Some v \<Rightarrow> v)"

text \<open>The own property of a value, when it is an object that has it.\<close>

fun own_prop :: "val \<Rightarrow> name \<Rightarrow> val option" where
  "own_prop (Obj c p) k = p k"
| "own_prop v k = None"

text \<open>\<^verbatim>\<open>v[k]\<close>: a TypeError on undefined and null, undefined on the other primitives.\<close>

fun get_prop :: "val \<Rightarrow> name \<Rightarrow> exn + val" where
  "get_prop Undefined k = Inl TypeError"
| "get_prop Null k = Inl TypeError"
| "get_prop (Obj c p) k = Inr (case p k of None \<Rightarrow> Undefined | Some v \<Rightarrow> v)"
| "get_prop v k = Inr Undefined"

text \<open>\<^verbatim>\<open>v[k] = x\<close> in strict mode: a TypeError on every primitive.\<close>

fun set_prop :: "val \<Rightarrow> name \<Rightarrow> val \<Rightarrow> exn + val" where
  "set_prop (Obj c p) k x = Inr (Obj c (p(k \<mapsto> x)))"
| "set_prop v k x = Inl TypeError"

text \<open>
  A step of the installer returns the new global object, or the exception it threw together
  with the global object as it was at the throw.
\<close>

type_synonym step_result = "(exn \<times> window) + window"

definition final :: "step_result \<Rightarrow> window" where
  "final r = (case r of Inl (e, w) \<Rightarrow> w | Inr w \<Rightarrow> w)"

text \<open>
  Functions made by the script are values without identity here: two closures over the
  same \<^verbatim>\<open>old\<close> are equal. So that an assignment of an equal value is still seen, every step
  also returns the assignments it has executed, in their order: \<^verbatim>\<open>window[x] = v\<close> and
  \<^verbatim>\<open>GM[k] = v\<close>.
\<close>

datatype assignment = Window_write name val | Member_write name val

type_synonym logged = "step_result \<times> assignment list"

text \<open>The steps after a step: none after a throw, and the assignments add up.\<close>

definition and_then :: "logged \<Rightarrow> (window \<Rightarrow> logged) \<Rightarrow> logged" where
  "and_then r f =
     (case r of
        (Inl x, ws) \<Rightarrow> (Inl x, ws)
      | (Inr w, ws) \<Rightarrow> (case f w of (r', ws') \<Rightarrow> (r', ws @ ws')))"

text \<open>\<^verbatim>\<open>GM[k]\<close> and \<^verbatim>\<open>GM[k] = x\<close>, with \<^verbatim>\<open>GM\<close> the bare identifier.\<close>

definition read_GM :: "window \<Rightarrow> name \<Rightarrow> exn + val" where
  "read_GM w k = (case lookup_global w ''GM'' of Inl e \<Rightarrow> Inl e | Inr gm \<Rightarrow> get_prop gm k)"

definition assign_GM :: "window \<Rightarrow> name \<Rightarrow> val \<Rightarrow> logged" where
  "assign_GM w k x =
     (case lookup_global w ''GM'' of
        Inl e \<Rightarrow> (Inl (e, w), [])
      | Inr gm \<Rightarrow>
          (case set_prop gm k x of
             Inl e \<Rightarrow> (Inl (e, w), [])
           | Inr gm' \<Rightarrow> (Inr (w(''GM'' \<mapsto> gm')), [Member_write k x])))"

section \<open>The installer\<close>

text \<open>Lines 23 to 28: the unified namespace is created when \<^verbatim>\<open>window.GM\<close> is falsy.\<close>

definition empty_object :: val where
  "empty_object = Obj None Map.empty"

definition init_GM :: "window \<Rightarrow> logged" where
  "init_GM w =
     (if \<not> truthy (window_get w ''GM'') then
        (case lookup_global w ''GM_info'' of
           Inl e \<Rightarrow> (Inl (e, w), [])
         | Inr gi \<Rightarrow>
             (let gm = Obj None (Map.empty
                         (''info'' \<mapsto> (if truthy gi then gi else empty_object),
                          ''version'' \<mapsto> Str ''4.0.0''))
              in (Inr (w(''GM'' \<mapsto> gm)), [Window_write ''GM'' gm])))
      else (Inr w, []))"

text \<open>Lines 188 to 193: the direct mapping table, in the order of its keys.\<close>

definition console_bound :: "name \<Rightarrow> val" where
  "console_bound m = Obj (Some (Bound_console m)) Map.empty"

definition directMappings :: "window \<Rightarrow> exn + (name \<times> val) list" where
  "directMappings w =
     (case lookup_global w ''GM_info'' of
        Inl e \<Rightarrow> Inl e
      | Inr gi \<Rightarrow>
          Inr [(''log'', console_bound ''log''),
               (''info'', gi),
               (''error'', console_bound ''error''),
               (''warn'', console_bound ''warn'')])"

text \<open>Lines 196 to 200: \<^verbatim>\<open>if (old && !GM[newKey]) GM[newKey] = old\<close>.\<close>

fun apply_direct :: "(name \<times> val) list \<Rightarrow> window \<Rightarrow> logged" where
  "apply_direct [] w = (Inr w, [])"
| "apply_direct ((newKey, old) # rest) w =
     (if truthy old then
        (case read_GM w newKey of
           Inl e \<Rightarrow> (Inl (e, w), [])
         | Inr cur \<Rightarrow>
             (if \<not> truthy cur
              then and_then (assign_GM w newKey old) (apply_direct rest)
              else apply_direct rest w))
      else apply_direct rest w)"

text \<open>Lines 203 to 218: the promise mapping table, legacy name first.\<close>

definition promiseMappings :: "(name \<times> name) list" where
  "promiseMappings =
     [(''GM_addStyle'', ''addStyle''),
      (''GM_deleteValue'', ''deleteValue''),
      (''GM_getResourceURL'', ''getResourceUrl''),
      (''GM_getValue'', ''getValue''),
      (''GM_listValues'', ''listValues''),
      (''GM_notification'', ''notification''),
      (''GM_openInTab'', ''openInTab''),
      (''GM_registerMenuCommand'', ''registerMenuCommand''),
      (''GM_setClipboard'', ''setClipboard''),
      (''GM_setValue'', ''setValue''),
      (''GM_xmlhttpRequest'', ''xmlHttpRequest''),
      (''GM_getResourceText'', ''getResourceText''),
      (''GM_download'', ''download''),
      (''GM_cookie'', ''cookie'')]"

text \<open>Lines 104 to 185: the keys of the \<^verbatim>\<open>polyfills\<close> object, and its methods as values.\<close>

definition polyfills :: "name list" where
  "polyfills = [''GM_addStyle'', ''GM_registerMenuCommand'', ''GM_getResourceText'']"

definition polyfill :: "name \<Rightarrow> val" where
  "polyfill key = Obj (Some (Polyfill key)) Map.empty"

text \<open>Lines 221 to 225: \<^verbatim>\<open>if (typeof window[key] === 'undefined') window[key] = implementation\<close>.\<close>

fun apply_polyfills :: "name list \<Rightarrow> window \<Rightarrow> logged" where
  "apply_polyfills [] w = (Inr w, [])"
| "apply_polyfills (key # rest) w =
     (if is_undefined (window_get w key)
      then and_then (Inr (w(key \<mapsto> polyfill key)), [Window_write key (polyfill key)])
             (apply_polyfills rest)
      else apply_polyfills rest w)"

text \<open>
  Lines 228 to 233: \<^verbatim>\<open>const old = window[oldKey]; if (old && !GM[newKey]) GM[newKey] =
  (...args) => utils.promisify(old, ...args)\<close>.
\<close>

definition forwarder :: "val \<Rightarrow> val" where
  "forwarder old = Obj (Some (Forward old)) Map.empty"

fun apply_promise :: "(name \<times> name) list \<Rightarrow> window \<Rightarrow> logged" where
  "apply_promise [] w = (Inr w, [])"
| "apply_promise ((oldKey, newKey) # rest) w =
     (let old = window_get w oldKey in
      if truthy old then
        (case read_GM w newKey of
           Inl e \<Rightarrow> (Inl (e, w), [])
         | Inr cur \<Rightarrow>
             (if \<not> truthy cur
              then and_then (assign_GM w newKey (forwarder old)) (apply_promise rest)
              else apply_promise rest w))
      else apply_promise rest w)"

text \<open>The whole script, in the order of the source.\<close>

definition installer :: "window \<Rightarrow> logged" where
  "installer w =
     and_then (init_GM w) (\<lambda>w1.
       (case directMappings w1 of
          Inl e \<Rightarrow> (Inl (e, w1), [])
        | Inr dm \<Rightarrow>
            and_then (apply_direct dm w1) (\<lambda>w2.
              and_then (apply_polyfills polyfills w2) (apply_promise promiseMappings))))"

text \<open>How the script ends, and the assignments it has executed.\<close>

definition install :: "window \<Rightarrow> step_result" where
  "install w = fst (installer w)"

definition install_writes :: "window \<Rightarrow> assignment list" where
  "install_writes w = snd (installer w)"

text \<open>The unified namespace of a global object, and one of its members.\<close>

definition GM_member :: "window \<Rightarrow> name \<Rightarrow> val option" where
  "GM_member w k = own_prop (window_get w ''GM'') k"

section \<open>Calls, promises and timers\<close>

text \<open>
  What a call does, seen from its caller: it returns a plain value, it throws, or it returns
  a promise, which is fulfilled, is rejected, or never settles. \<^verbatim>\<open>fn.apply(this, args)\<close> is
  a parameter of the model: for a function value and an argument list it gives what the
  call does and the milliseconds it runs before it returns (a call that never returns is
  left out, nothing follows it). The receiver \<^verbatim>\<open>this\<close> is not modelled.
\<close>

datatype 'a settle = Fulfils 'a | Rejects exn | Never

datatype 'a outcome = Returns 'a | Throws exn | Returns_promise "'a settle"

type_synonym apply_fn = "val \<Rightarrow> val list \<Rightarrow> val outcome \<times> nat"

text \<open>\<^verbatim>\<open>await e\<close> inside a \<^verbatim>\<open>try\<close>: the value, the exception that reaches the \<^verbatim>\<open>catch\<close>, or no
  continuation at all.\<close>

datatype 'a awaited = Value 'a | Raised exn | Suspended

fun await :: "'a outcome \<Rightarrow> 'a awaited" where
  "await (Returns v) = Value v"
| "await (Throws e) = Raised e"
| "await (Returns_promise (Fulfils v)) = Value v"
| "await (Returns_promise (Rejects e)) = Raised e"
| "await (Returns_promise Never) = Suspended"

text \<open>
  The promise \<^verbatim>\<open>promisify\<close> returns, with the one timer it owns. The fate is \<open>None\<close> while
  neither \<^verbatim>\<open>resolve\<close> nor \<^verbatim>\<open>reject\<close> has been called. \<^verbatim>\<open>resolve\<close> is given the fate the
  deferred takes: \<open>Fulfils v\<close> for a plain value \<open>v\<close>, and the fate of the promise for a
  promise, which the deferred follows. A second call of \<^verbatim>\<open>resolve\<close> or \<^verbatim>\<open>reject\<close> does
  nothing.
\<close>

record deferred =
  fate :: "val settle option"
  timer :: "nat option"        \<comment> \<open>the time at which the pending timer is due\<close>
  clock :: nat

definition setTimeout :: "nat \<Rightarrow> deferred \<Rightarrow> deferred" where
  "setTimeout delay d = d\<lparr>timer := Some (clock d + delay)\<rparr>"

definition clearTimeout :: "deferred \<Rightarrow> deferred" where
  "clearTimeout d = d\<lparr>timer := None\<rparr>"

definition resolve :: "val settle \<Rightarrow> deferred \<Rightarrow> deferred" where
  "resolve s d = (if fate d = None then d\<lparr>fate := Some s\<rparr> else d)"

definition reject :: "exn \<Rightarrow> deferred \<Rightarrow> deferred" where
  "reject e d = (if fate d = None then d\<lparr>fate := Some (Rejects e)\<rparr> else d)"

text \<open>
  Lines 39 to 54. The executor runs at once: the timer is set, \<^verbatim>\<open>fn\<close> is applied, and the
  timer is cleared in both branches of the \<^verbatim>\<open>try\<close>. The delay of the timer is what the host
  makes of the \<^verbatim>\<open>timeout\<close> argument (\<open>to_ms\<close>).
\<close>

definition promisify ::
  "apply_fn \<Rightarrow> (val \<Rightarrow> nat) \<Rightarrow> val \<Rightarrow> val \<Rightarrow> val list \<Rightarrow> nat \<Rightarrow> deferred" where
  "promisify app to_ms fn timeout args start =
     (let d1 = setTimeout (to_ms timeout) \<lparr>fate = None, timer = None, clock = start\<rparr>;
          (out, ran) = app fn args;
          d2 = d1\<lparr>clock := clock d1 + ran\<rparr>
      in case out of
           Throws e \<Rightarrow> reject e (clearTimeout d2)
         | Returns v \<Rightarrow> resolve (Fulfils v) (clearTimeout d2)
         | Returns_promise s \<Rightarrow> resolve s (clearTimeout d2))"

text \<open>The event loop is idle for \<open>n\<close> milliseconds: a timer that is due by then runs its
  callback, \<^verbatim>\<open>reject(new Error('Operation timed out'))\<close>.\<close>

definition elapse :: "nat \<Rightarrow> deferred \<Rightarrow> deferred" where
  "elapse n d =
     (let d' = d\<lparr>clock := clock d + n\<rparr> in
      case timer d of
        None \<Rightarrow> d'
      | Some due \<Rightarrow>
          (if due \<le> clock d'
           then reject (Error ''Operation timed out'') (d'\<lparr>timer := None\<rparr>)
           else d'))"

text \<open>
  The parameters of \<^verbatim>\<open>promisify(fn, timeout = 5000, ...args)\<close> after \<^verbatim>\<open>fn\<close>: the first
  argument is the timeout (the default when it is missing or undefined), the others are
  \<^verbatim>\<open>args\<close>.
\<close>

fun promisify_args :: "val list \<Rightarrow> val \<times> val list" where
  "promisify_args [] = (Num 5000, [])"
| "promisify_args (a # rest) = ((if is_undefined a then Num 5000 else a), rest)"

text \<open>Line 231, the body of a forwarding function: \<^verbatim>\<open>utils.promisify(old, ...args)\<close>.\<close>

definition forward_call ::
  "apply_fn \<Rightarrow> (val \<Rightarrow> nat) \<Rightarrow> val \<Rightarrow> val list \<Rightarrow> nat \<Rightarrow> deferred" where
  "forward_call app to_ms old A start =
     (let (timeout, args) = promisify_args A in promisify app to_ms old timeout args start)"

text \<open>What the caller of the legacy entry point sees of \<^verbatim>\<open>old(...A)\<close>, as the fate a promise
  resolved with it would have.\<close>

definition direct_call :: "apply_fn \<Rightarrow> val \<Rightarrow> val list \<Rightarrow> val settle" where
  "direct_call app old A =
     (case fst (app old A) of
        Returns v \<Rightarrow> Fulfils v
      | Throws e \<Rightarrow> Rejects e
      | Returns_promise s \<Rightarrow> s)"

section \<open>The DOM-readiness waiter\<close>

record document =
  body :: val
  readyState :: string
  documentElement :: val

record waiter =
  w_fate :: "val settle option"
  w_timer :: "nat option"
  observing :: bool            \<comment> \<open>the MutationObserver is registered\<close>
  resolve_calls :: nat         \<comment> \<open>how often \<^verbatim>\<open>resolve\<close> has been called\<close>

text \<open>Line 61: \<^verbatim>\<open>timeout = 10000\<close> when the argument is missing.\<close>

definition deadline :: "nat option \<Rightarrow> nat" where
  "deadline timeout = (case timeout of None \<Rightarrow> 10000 | Some t \<Rightarrow> t)"

text \<open>Lines 61 to 87, called at the time \<open>start\<close>.\<close>

definition waitForBody :: "document \<Rightarrow> nat option \<Rightarrow> nat \<Rightarrow> waiter" where
  "waitForBody d timeout start =
     (if truthy (body d) then
        \<lparr>w_fate = Some (Fulfils (body d)), w_timer = None, observing = False,
         resolve_calls = 1\<rparr>
      else
        \<lparr>w_fate = None,
         w_timer = Some (start + deadline timeout),
         observing = (readyState d = ''loading'' \<and> truthy (documentElement d)),
         resolve_calls = 0\<rparr>)"

text \<open>The observer's callback (lines 72 to 78), run on a document \<open>d\<close>.\<close>

definition on_mutation :: "document \<Rightarrow> waiter \<Rightarrow> waiter" where
  "on_mutation d wt =
     (if observing wt \<and> truthy (body d) then
        wt\<lparr>w_timer := None, observing := False,
           w_fate := (if w_fate wt = None then Some (Fulfils (body d)) else w_fate wt),
           resolve_calls := Suc (resolve_calls wt)\<rparr>
      else wt)"

text \<open>The timer's callback (lines 67 to 70).\<close>

definition on_timeout :: "waiter \<Rightarrow> waiter" where
  "on_timeout wt =
     wt\<lparr>w_timer := None, observing := False,
        w_fate := (if w_fate wt = None then Some (Rejects (Error ''Timeout waiting for body''))
                   else w_fate wt)\<rparr>"

text \<open>
  The page after the call: a change of the child list below the root element leaves a new
  document and is delivered to a registered observer; idle time lets a due timer run.
\<close>

datatype event = Mutation document | Elapse nat

record page =
  doc :: document
  wt :: waiter
  now :: nat

fun step :: "page \<Rightarrow> event \<Rightarrow> page" where
  "step s (Mutation d) = s\<lparr>doc := d, wt := on_mutation d (wt s)\<rparr>"
| "step s (Elapse n) =
     (let t = now s + n in
      case w_timer (wt s) of
        None \<Rightarrow> s\<lparr>now := t\<rparr>
      | Some due \<Rightarrow> (if due \<le> t then s\<lparr>now := t, wt := on_timeout (wt s)\<rparr> else s\<lparr>now := t\<rparr>))"

definition run :: "page \<Rightarrow> event list \<Rightarrow> page" where
  "run s evs = foldl step s evs"

definition call_waitForBody :: "document \<Rightarrow> nat option \<Rightarrow> nat \<Rightarrow> page" where
  "call_waitForBody d timeout start = \<lparr>doc = d, wt = waitForBody d timeout start, now = start\<rparr>"

text \<open>The two ways the waiter ends: the timer has rejected it, or the observer (or the
  check at the call) has resolved it with the body.\<close>

definition timed_out :: waiter where
  "timed_out =
     \<lparr>w_fate = Some (Rejects (Error ''Timeout waiting for body'')), w_timer = None,
      observing = False, resolve_calls = 0\<rparr>"

definition found :: "val \<Rightarrow> waiter" where
  "found b = \<lparr>w_fate = Some (Fulfils b), w_timer = None, observing = False, resolve_calls = 1\<rparr>"

fun elapsed :: "event list \<Rightarrow> nat" where
  "elapsed [] = 0"
| "elapsed (Mutation d # evs) = elapsed evs"
| "elapsed (Elapse n # evs) = n + elapsed evs"

fun shows_body :: "event \<Rightarrow> bool" where
  "shows_body (Mutation d) = truthy (body d)"
| "shows_body (Elapse n) = False"

section \<open>The menu-command polyfill\<close>

text \<open>
  The part of the DOM the polyfill reads and writes: the element
  \<^verbatim>\<open>document.getElementById('gm-registered-menu')\<close> with its attributes and children, and
  \<^verbatim>\<open>body.contextMenu\<close>. A listener is the command function that \<^verbatim>\<open>wrappedCommand\<close> has
  captured, with the \<^verbatim>\<open>once\<close> option it was added with.
\<close>

record listener =
  command :: val
  once :: bool

record menuitem =
  textContent :: val
  accessKey :: "val option"
  click_listeners :: "listener list"

record menu =
  menu_id :: string
  menu_type :: string
  data_gm_version :: "val option"   \<comment> \<open>the argument of \<^verbatim>\<open>setAttribute\<close>; the DOM keeps its string form\<close>
  children :: "menuitem list"

record dom =
  registered_menu :: "menu option"
  contextMenu :: "string option"

type_synonym console_log = "(string \<times> exn) list"

text \<open>
  Lines 124 to 161, from the point where the awaited waiter has settled: the value the
  async function returns (\<open>None\<close> is \<^verbatim>\<open>null\<close>), the DOM it leaves and what it logged.
  While the waiter is pending the function is suspended, which is the fate \<open>Never\<close> here.
\<close>

definition menuId :: string where
  "menuId = ''gm-registered-menu''"

definition new_menuitem :: "val \<Rightarrow> val \<Rightarrow> val \<Rightarrow> menuitem" where
  "new_menuitem caption commandFunc key =
     \<lparr>textContent = caption,
      accessKey = (if truthy key then Some key else None),
      click_listeners = [\<lparr>command = commandFunc, once = True\<rparr>]\<rparr>"

definition append_item :: "menu \<Rightarrow> menuitem \<Rightarrow> menu" where
  "append_item m item = m\<lparr>children := children m @ [item]\<rparr>"

definition GM_registerMenuCommand ::
  "window \<Rightarrow> dom \<Rightarrow> val settle option \<Rightarrow> val \<Rightarrow> val \<Rightarrow> val \<Rightarrow>
     menuitem option settle \<times> dom \<times> console_log" where
  "GM_registerMenuCommand w dm waited caption commandFunc key =
     (case waited of
        None \<Rightarrow> (Never, dm, [])
      | Some Never \<Rightarrow> (Never, dm, [])
      | Some (Rejects e) \<Rightarrow> (Fulfils None, dm, [(''GM_registerMenuCommand error:'', e)])
      | Some (Fulfils b) \<Rightarrow>
          (case registered_menu dm of
             Some m \<Rightarrow>
               (let item = new_menuitem caption commandFunc key in
                (Fulfils (Some item), dm\<lparr>registered_menu := Some (append_item m item)\<rparr>, []))
           | None \<Rightarrow>
               (case read_GM w ''version'' of
                  Inl e \<Rightarrow> (Fulfils None, dm, [(''GM_registerMenuCommand error:'', e)])
                | Inr v \<Rightarrow>
                    (let m = \<lparr>menu_id = menuId, menu_type = ''context'',
                              data_gm_version = Some v, children = []\<rparr>;
                         item = new_menuitem caption commandFunc key
                     in (Fulfils (Some item),
                         \<lparr>registered_menu = Some (append_item m item),
                          contextMenu = Some menuId\<rparr>, [])))))"

text \<open>The polyfill called on a page: the waiter runs through the events, then the rest.\<close>

definition register_on_page ::
  "window \<Rightarrow> dom \<Rightarrow> document \<Rightarrow> nat \<Rightarrow> event list \<Rightarrow> val \<Rightarrow> val \<Rightarrow> val \<Rightarrow>
     menuitem option settle \<times> dom \<times> console_log" where
  "register_on_page w dm d start evs caption commandFunc key =
     GM_registerMenuCommand w dm (w_fate (wt (run (call_waitForBody d None start) evs)))
       caption commandFunc key"

text \<open>What line 158 logs when the waiter has timed out.\<close>

definition timeout_logged :: console_log where
  "timeout_logged = [(''GM_registerMenuCommand error:'', Error ''Timeout waiting for body'')]"

text \<open>
  Lines 145 to 151, \<^verbatim>\<open>wrappedCommand\<close>: what its call does and what it logs. It is an async
  function, so its caller always gets a promise.
\<close>

definition wrappedCommand :: "apply_fn \<Rightarrow> val \<Rightarrow> val list \<Rightarrow> val outcome \<times> console_log" where
  "wrappedCommand app commandFunc args =
     (case await (fst (app commandFunc args)) of
        Value v \<Rightarrow> (Returns_promise (Fulfils Undefined), [])
      | Raised e \<Rightarrow> (Returns_promise (Fulfils Undefined), [(''Menu command error:'', e)])
      | Suspended \<Rightarrow> (Returns_promise Never, []))"

text \<open>
  A click on a menu entry: every listener runs, a listener added with \<^verbatim>\<open>once\<close> is removed.
  What the listener throws, and the rejection of the promise it returns, reach the
  dispatcher with nobody to handle them.
\<close>

record click_result =
  item_after :: menuitem
  uncaught :: "exn list"
  logged :: console_log
  invoked :: nat

fun escapes :: "val outcome \<Rightarrow> exn list" where
  "escapes (Throws e) = [e]"
| "escapes (Returns_promise (Rejects e)) = [e]"
| "escapes r = []"

fun run_listeners :: "apply_fn \<Rightarrow> val \<Rightarrow> listener list \<Rightarrow> listener list \<times> exn list \<times> console_log \<times> nat" where
  "run_listeners app ev [] = ([], [], [], 0)"
| "run_listeners app ev (l # ls) =
     (let (r, lg) = wrappedCommand app (command l) [ev];
          (kept, errs, lgs, n) = run_listeners app ev ls
      in ((if once l then kept else l # kept), escapes r @ errs, lg @ lgs, Suc n))"

definition click :: "apply_fn \<Rightarrow> val \<Rightarrow> menuitem \<Rightarrow> click_result" where
  "click app ev item =
     (let (kept, errs, lgs, n) = run_listeners app ev (click_listeners item)
      in \<lparr>item_after = item\<lparr>click_listeners := kept\<rparr>, uncaught = errs, logged = lgs,
          invoked = n\<rparr>)"

text \<open>Several clicks in a row, the results added up.\<close>

fun clicks :: "apply_fn \<Rightarrow> val list \<Rightarrow> menuitem \<Rightarrow> click_result" where
  "clicks app [] item = \<lparr>item_after = item, uncaught = [], logged = [], invoked = 0\<rparr>"
| "clicks app (ev # evs) item =
     (let r = click app ev item; rs = clicks app evs (item_after r)
      in \<lparr>item_after = item_after rs, uncaught = uncaught r @ uncaught rs,
          logged = logged r @ logged rs, invoked = invoked r + invoked rs\<rparr>)"

section \<open>The resource-text polyfill\<close>

text \<open>
  The world of one attempt, numbered by the failures before it: what
  \<^verbatim>\<open>GM.getResourceUrl(resourceId)\<close> does, what \<^verbatim>\<open>fetch(url)\<close> does, and the response with
  what its \<^verbatim>\<open>text()\<close> does.
\<close>

record response =
  ok :: bool
  status :: nat
  text_of :: "val outcome"

record world =
  getResourceUrl :: "nat \<Rightarrow> val \<Rightarrow> val outcome"
  fetch :: "nat \<Rightarrow> val \<Rightarrow> response outcome"

text \<open>\<^verbatim>\<open>new Error(`HTTP error! status: ${response.status}`)\<close>, the status in decimal.\<close>

function decimal :: "nat \<Rightarrow> string" where
  "decimal n =
     (if n < 10 then [''0123456789'' ! n]
      else decimal (n div 10) @ [''0123456789'' ! (n mod 10)])"
  by pat_completeness auto
termination
  by (relation "measure (\<lambda>n. n)") auto

definition http_error :: "nat \<Rightarrow> exn" where
  "http_error st = Error (''HTTP error! status: '' @ decimal st)"

text \<open>Lines 168 to 173, the body of the \<^verbatim>\<open>try\<close>.\<close>

definition try_fetch :: "world \<Rightarrow> nat \<Rightarrow> val \<Rightarrow> val awaited" where
  "try_fetch wd i resourceId =
     (case await (getResourceUrl wd i resourceId) of
        Raised e \<Rightarrow> Raised e
      | Suspended \<Rightarrow> Suspended
      | Value url \<Rightarrow>
          (case await (fetch wd i url) of
             Raised e \<Rightarrow> Raised e
           | Suspended \<Rightarrow> Suspended
           | Value r \<Rightarrow>
               (if \<not> ok r then Raised (http_error (status r)) else await (text_of r))))"

record retrieval =
  returned :: "val settle"       \<comment> \<open>the fate of the promise the async function returns\<close>
  delays :: "nat list"           \<comment> \<open>the timers it waited for, in milliseconds\<close>
  attempts_made :: nat           \<comment> \<open>how often the body of the \<^verbatim>\<open>try\<close> was entered\<close>
  final_error :: "exn option"    \<comment> \<open>what \<^verbatim>\<open>console.error\<close> was given\<close>

text \<open>Lines 165 to 183, the loop, from a value of \<^verbatim>\<open>attempts\<close>.\<close>

function retry_loop :: "world \<Rightarrow> val \<Rightarrow> nat \<Rightarrow> nat \<Rightarrow> nat list \<Rightarrow> retrieval" where
  "retry_loop wd resourceId maxRetries attempts waits =
     (if attempts < maxRetries then
        (case try_fetch wd attempts resourceId of
           Value t \<Rightarrow>
             \<lparr>returned = Fulfils t, delays = waits, attempts_made = Suc attempts,
              final_error = None\<rparr>
         | Suspended \<Rightarrow>
             \<lparr>returned = Never, delays = waits, attempts_made = Suc attempts,
              final_error = None\<rparr>
         | Raised e \<Rightarrow>
             (if Suc attempts = maxRetries then
                \<lparr>returned = Fulfils Null, delays = waits, attempts_made = Suc attempts,
                 final_error = Some e\<rparr>
              else
                retry_loop wd resourceId maxRetries (Suc attempts)
                  (waits @ [2 ^ Suc attempts * 1000])))
      else
        \<lparr>returned = Fulfils Undefined, delays = waits, attempts_made = attempts,
         final_error = None\<rparr>)"
  by pat_completeness auto
termination
  by (relation "measure (\<lambda>(wd, resourceId, maxRetries, attempts, waits). maxRetries - attempts)")
     auto

text \<open>Line 164: \<^verbatim>\<open>maxRetries = 3\<close> when the argument is missing.\<close>

definition GM_getResourceText :: "world \<Rightarrow> val \<Rightarrow> nat option \<Rightarrow> retrieval" where
  "GM_getResourceText wd resourceId maxRetries =
     retry_loop wd resourceId (case maxRetries of None \<Rightarrow> 3 | Some n \<Rightarrow> n) 0 []"

section \<open>The members of the unified namespace, in closed form\<close>

text \<open>\<^verbatim>\<open>GM[k]\<close> as a value: undefined when there is no such member.\<close>

definition GM_get :: "window \<Rightarrow> name \<Rightarrow> val" where
  "GM_get w k = (case GM_member w k of None \<Rightarrow> Undefined | Some v \<Rightarrow> v)"

definition member_val :: "(name \<Rightarrow> val option) \<Rightarrow> name \<Rightarrow> val" where
  "member_val p k = (case p k of None \<Rightarrow> Undefined | Some v \<Rightarrow> v)"

text \<open>
  What both loops over a table do to the members of an object: an entry with a truthy
  value is written where the member is falsy. The entries of the promise loop are the
  forwarding functions of the truthy legacy values.
\<close>

fun fill :: "(name \<times> val) list \<Rightarrow> (name \<Rightarrow> val option) \<Rightarrow> (name \<Rightarrow> val option)" where
  "fill [] p = p"
| "fill ((k, v) # rest) p =
     (if truthy v \<and> \<not> truthy (member_val p k) then fill rest (p(k \<mapsto> v)) else fill rest p)"

definition forward_entries :: "window \<Rightarrow> (name \<times> name) list \<Rightarrow> (name \<times> val) list" where
  "forward_entries w pm =
     map (\<lambda>(oldKey, newKey).
            (newKey, (if truthy (window_get w oldKey) then forwarder (window_get w oldKey)
                      else window_get w oldKey))) pm"

text \<open>The first entry of a table that can be written under a name.\<close>

fun first_truthy :: "(name \<times> val) list \<Rightarrow> name \<Rightarrow> val option" where
  "first_truthy [] k = None"
| "first_truthy ((k', v) # rest) k =
     (if k' = k \<and> truthy v then Some v else first_truthy rest k)"

fun is_object :: "val \<Rightarrow> bool" where
  "is_object (Obj c p) = True"
| "is_object v = False"

text \<open>The direct mapping table for a given \<^verbatim>\<open>GM_info\<close>, the namespace object of lines 24 to
  27, and the members of the namespace when the script has run to its end.\<close>

definition direct_table :: "val \<Rightarrow> (name \<times> val) list" where
  "direct_table gi =
     [(''log'', console_bound ''log''), (''info'', gi),
      (''error'', console_bound ''error''), (''warn'', console_bound ''warn'')]"

definition fresh_GM :: "val \<Rightarrow> val" where
  "fresh_GM gi = Obj None (Map.empty(''info'' \<mapsto> (if truthy gi then gi else empty_object),
                                     ''version'' \<mapsto> Str ''4.0.0''))"

text \<open>The legacy surface after the polyfill loop.\<close>

definition with_polyfills :: "name list \<Rightarrow> window \<Rightarrow> window" where
  "with_polyfills ks w =
     (\<lambda>k. if k \<in> set ks \<and> is_undefined (window_get w k) then Some (polyfill k) else w k)"

definition installed_members ::
  "window \<Rightarrow> val \<Rightarrow> (name \<Rightarrow> val option) \<Rightarrow> (name \<Rightarrow> val option)" where
  "installed_members w gi p =
     fill (forward_entries (with_polyfills polyfills w) promiseMappings) (fill (direct_table gi) p)"

text \<open>The assignments of a loop over a table, of the polyfill loop, and of the three loops
  together when the namespace object has the members \<open>p\<close>.\<close>

fun fill_writes :: "(name \<times> val) list \<Rightarrow> (name \<Rightarrow> val option) \<Rightarrow> assignment list" where
  "fill_writes [] p = []"
| "fill_writes ((k, v) # rest) p =
     (if truthy v \<and> \<not> truthy (member_val p k)
      then Member_write k v # fill_writes rest (p(k \<mapsto> v))
      else fill_writes rest p)"

definition polyfill_writes :: "name list \<Rightarrow> window \<Rightarrow> assignment list" where
  "polyfill_writes ks w =
     map (\<lambda>k. Window_write k (polyfill k)) (filter (\<lambda>k. is_undefined (window_get w k)) ks)"

definition installed_writes :: "window \<Rightarrow> val \<Rightarrow> (name \<Rightarrow> val option) \<Rightarrow> assignment list" where
  "installed_writes w gi p =
     fill_writes (direct_table gi) p @ polyfill_writes polyfills w @
     fill_writes (forward_entries (with_polyfills polyfills w) promiseMappings)
       (fill (direct_table gi) p)"



section \<open>Concrete hosts and pages\<close>

text \<open>The inputs at which the theorems below are evaluated.\<close>

definition native :: "nat \<Rightarrow> val" where
  "native n = Obj (Some (Native n)) Map.empty"

text \<open>A host that provides \<^verbatim>\<open>GM_info\<close> and a native \<^verbatim>\<open>GM_getValue\<close>, and nothing else.\<close>

definition legacy_host :: window where
  "legacy_host = Map.empty(''GM_info'' \<mapsto> empty_object, ''GM_getValue'' \<mapsto> native 0)"

text \<open>Its \<^verbatim>\<open>GM_getValue\<close>: the value stored under the key \<^verbatim>\<open>k\<close>, undefined for any other
  argument list; it returns at once.\<close>

definition legacy_getValue :: apply_fn where
  "legacy_getValue f args =
     ((if f = native 0 \<and> args = [Str ''k''] then Returns (Str ''stored'') else Returns Undefined), 0)"



text \<open>A host with a native \<^verbatim>\<open>GM.addStyle\<close> and no \<^verbatim>\<open>GM_addStyle\<close>.\<close>

definition unified_host :: window where
  "unified_host =
     Map.empty(''GM_info'' \<mapsto> empty_object,
               ''GM'' \<mapsto> Obj None (Map.empty(''addStyle'' \<mapsto> native 7)))"

text \<open>A host on which \<^verbatim>\<open>GM_setValue\<close> is null.\<close>

definition null_legacy_host :: window where
  "null_legacy_host = Map.empty(''GM_info'' \<mapsto> empty_object, ''GM_setValue'' \<mapsto> Null)"

text \<open>A function that returns a promise which never settles, one that runs for six seconds
  before it returns 1, and one that throws.\<close>

definition never_settles :: apply_fn where
  "never_settles f args = (Returns_promise Never, 0)"

definition six_seconds :: apply_fn where
  "six_seconds f args = (Returns (Num 1), 6000)"

definition throws_at_once :: apply_fn where
  "throws_at_once f args = (Throws (Error ''boom''), 0)"

definition milliseconds :: "val \<Rightarrow> nat" where
  "milliseconds v = (case v of Num n \<Rightarrow> nat n | _ \<Rightarrow> 0)"

text \<open>Documents: the parser has not reached the body; the same once it has; and a document
  that was loaded without a body, before and after a script gives it one.\<close>

definition element :: "string \<Rightarrow> val" where
  "element tag = Obj None (Map.empty(''tagName'' \<mapsto> Str tag))"

definition loading_doc :: document where
  "loading_doc = \<lparr>body = Null, readyState = ''loading'', documentElement = element ''HTML''\<rparr>"

definition loading_doc_with_body :: document where
  "loading_doc_with_body =
     \<lparr>body = element ''BODY'', readyState = ''loading'', documentElement = element ''HTML''\<rparr>"

definition bodyless_doc :: document where
  "bodyless_doc = \<lparr>body = Null, readyState = ''interactive'', documentElement = element ''HTML''\<rparr>"

definition bodyless_doc_with_body :: document where
  "bodyless_doc_with_body =
     \<lparr>body = element ''BODY'', readyState = ''interactive'', documentElement = element ''HTML''\<rparr>"

definition empty_dom :: dom where
  "empty_dom = \<lparr>registered_menu = None, contextMenu = None\<rparr>"

text \<open>A world in which the resource is resolved at the third attempt, and one in which
  every fetch is answered with status 404.\<close>

definition third_time_lucky :: world where
  "third_time_lucky =
     \<lparr>getResourceUrl = (\<lambda>i r. if i < 2 then Returns_promise (Rejects (Error ''no url''))
                              else Returns_promise (Fulfils (Str ''https://example.org/r''))),
      fetch = (\<lambda>i u. Returns_promise (Fulfils
                 \<lparr>ok = True, status = 200, text_of = Returns_promise (Fulfils (Str ''text''))\<rparr>))\<rparr>"

definition always_404 :: world where
  "always_404 =
     \<lparr>getResourceUrl = (\<lambda>i r. Returns_promise (Fulfils (Str ''https://example.org/r''))),
      fetch = (\<lambda>i u. Returns_promise (Fulfils
                 \<lparr>ok = False, status = 404, text_of = Returns_promise (Fulfils (Str []))\<rparr>))\<rparr>"

section \<open>The installer: the loops in closed form\<close>

lemma and_then_Inr: "and_then (Inr w, l) f = (fst (f w), l @ snd (f w))"
  by (simp add: and_then_def case_prod_beta)

lemma and_then_Inl: "and_then (Inl x, l) f = (Inl x, l)"
  by (simp add: and_then_def)

lemma fill_apply:
  "fill xs p k = (if truthy (member_val p k) then p k
                  else (case first_truthy xs k of None \<Rightarrow> p k | Some v \<Rightarrow> Some v))"
proof (induction xs arbitrary: p)
  case Nil
  then show ?case by simp
next
  case (Cons x xs)
  obtain k0 v0 where x: "x = (k0, v0)" by (cases x)
  show ?case
    unfolding x by (auto simp add: Cons.IH member_val_def split: option.splits)
qed

lemma with_polyfills_apply:
  "with_polyfills ks w k =
     (if k \<in> set ks \<and> is_undefined (window_get w k) then Some (polyfill k) else w k)"
  by (simp add: with_polyfills_def)

lemma first_truthy_truthy: "first_truthy xs k = Some v \<Longrightarrow> truthy v"
  by (induction xs) (auto split: if_splits)

lemma fill_idem: "fill xs (fill xs p) = fill xs p"
  by (rule ext) (auto simp: fill_apply member_val_def split: option.splits dest: first_truthy_truthy)

lemma fill_keeps_truthy: "truthy (member_val p k) \<Longrightarrow> fill xs p k = p k"
  by (simp add: fill_apply)

lemma fill_absorb:
  "fill xs (fill ys (fill xs p)) = fill ys (fill xs p)"
  by (rule ext) (auto simp: fill_apply member_val_def split: option.splits dest: first_truthy_truthy)

text \<open>A loop that leaves the members as they are has assigned nothing; and what a loop
  assigns is a truthy entry of its table, to a member that was falsy.\<close>

lemma fill_writes_Nil: "fill xs p = p \<Longrightarrow> fill_writes xs p = []"
proof (induction xs arbitrary: p)
  case Nil
  show ?case by simp
next
  case (Cons x xs)
  obtain k v where x: "x = (k, v)" by (cases x)
  show ?case
  proof (cases "truthy v \<and> \<not> truthy (member_val p k)")
    case True
    then have "fill (x # xs) p k = fill xs (p(k \<mapsto> v)) k"
      unfolding x by simp
    also have "\<dots> = Some v"
      using True by (simp add: fill_keeps_truthy member_val_def)
    finally have a: "fill (x # xs) p k = Some v" .
    have "p k = Some v"
      using a by (simp only: Cons.prems)
    then have "member_val p k = v"
      by (simp add: member_val_def)
    then show ?thesis using True by simp
  next
    case False
    then have f: "fill (x # xs) p = fill xs p" and g: "fill_writes (x # xs) p = fill_writes xs p"
      unfolding x by auto
    have "fill xs p = p"
      using Cons.prems by (simp only: f)
    then have "fill_writes xs p = []"
      by (rule Cons.IH)
    then show ?thesis by (simp only: g)
  qed
qed


lemma apply_direct_upd:
  "apply_direct dm (w(''GM'' \<mapsto> Obj c p)) =
     (Inr (w(''GM'' \<mapsto> Obj c (fill dm p))), fill_writes dm p)"
proof (induction dm arbitrary: p)
  case Nil
  show ?case by simp
next
  case (Cons x dm)
  obtain k v where x: "x = (k, v)" by (cases x)
  show ?case
  proof (cases "truthy v \<and> \<not> truthy (member_val p k)")
    case True
    then have "fill (x # dm) p = fill dm (p(k \<mapsto> v))"
      and "fill_writes (x # dm) p = Member_write k v # fill_writes dm (p(k \<mapsto> v))"
      unfolding x by simp_all
    moreover have "apply_direct (x # dm) (w(''GM'' \<mapsto> Obj c p)) =
        and_then (Inr (w(''GM'' \<mapsto> Obj c (p(k \<mapsto> v)))), [Member_write k v]) (apply_direct dm)"
      unfolding x using True
      by (simp add: read_GM_def lookup_global_def assign_GM_def member_val_def)
    ultimately show ?thesis by (simp only: and_then_Inr Cons.IH fst_conv snd_conv append.simps)
  next
    case False
    then have "fill (x # dm) p = fill dm p" and "fill_writes (x # dm) p = fill_writes dm p"
      unfolding x by auto
    moreover have "apply_direct (x # dm) (w(''GM'' \<mapsto> Obj c p)) =
        apply_direct dm (w(''GM'' \<mapsto> Obj c p))"
      unfolding x using False
      by (auto simp add: read_GM_def lookup_global_def member_val_def)
    ultimately show ?thesis by (simp only: Cons.IH)
  qed
qed

lemma apply_direct_object:
  assumes "w ''GM'' = Some (Obj c p)"
  shows "apply_direct dm w = (Inr (w(''GM'' \<mapsto> Obj c (fill dm p))), fill_writes dm p)"
proof -
  have "w = w(''GM'' \<mapsto> Obj c p)" using assms by (simp add: fun_upd_idem)
  then have "apply_direct dm w = apply_direct dm (w(''GM'' \<mapsto> Obj c p))" by simp
  then show ?thesis by (simp only: apply_direct_upd)
qed

lemma forward_entries_frame:
  assumes "''GM'' \<notin> fst ` set pm"
  shows "forward_entries (w(''GM'' \<mapsto> g)) pm = forward_entries w pm"
proof -
  have "\<And>oldKey newKey. (oldKey, newKey) \<in> set pm \<Longrightarrow> oldKey \<noteq> ''GM''"
    using assms by force
  then show ?thesis
    by (auto simp: forward_entries_def window_get_def)
qed

lemma forward_entries_Cons:
  "forward_entries w ((oldKey, newKey) # pm) =
      (newKey, (if truthy (window_get w oldKey) then forwarder (window_get w oldKey) else window_get w oldKey))
        # forward_entries w pm"
  by (simp add: forward_entries_def)

lemma apply_promise_upd:
  "''GM'' \<notin> fst ` set pm \<Longrightarrow>
   apply_promise pm (w(''GM'' \<mapsto> Obj c p)) =
     (Inr (w(''GM'' \<mapsto> Obj c (fill (forward_entries w pm) p))),
      fill_writes (forward_entries w pm) p)"
proof (induction pm arbitrary: p)
  case Nil
  show ?case by (simp add: forward_entries_def)
next
  case (Cons x pm)
  obtain oldKey newKey where x: "x = (oldKey, newKey)" by (cases x)
  have notin: "''GM'' \<notin> fst ` set pm" and oldKey: "oldKey \<noteq> ''GM''"
    using Cons.prems by (auto simp: x)
  let ?old = "window_get w oldKey"
  have get: "window_get (w(''GM'' \<mapsto> Obj c p)) oldKey = ?old"
    using oldKey by (simp add: window_get_def)
  have tf: "truthy (forwarder ?old)" by (simp add: forwarder_def)
  show ?case
  proof (cases "truthy ?old \<and> \<not> truthy (member_val p newKey)")
    case True
    then have "fill (forward_entries w (x # pm)) p =
        fill (forward_entries w pm) (p(newKey \<mapsto> forwarder ?old))"
      and "fill_writes (forward_entries w (x # pm)) p =
        Member_write newKey (forwarder ?old) #
          fill_writes (forward_entries w pm) (p(newKey \<mapsto> forwarder ?old))"
      unfolding x forward_entries_Cons using tf by simp_all
    moreover have "apply_promise (x # pm) (w(''GM'' \<mapsto> Obj c p)) =
        and_then (Inr (w(''GM'' \<mapsto> Obj c (p(newKey \<mapsto> forwarder ?old)))),
                  [Member_write newKey (forwarder ?old)]) (apply_promise pm)"
      unfolding x apply_promise.simps get Let_def using True
      by (simp add: read_GM_def lookup_global_def assign_GM_def member_val_def)
    ultimately show ?thesis
      by (simp only: and_then_Inr Cons.IH[OF notin] fst_conv snd_conv append.simps)
  next
    case False
    then have "fill (forward_entries w (x # pm)) p = fill (forward_entries w pm) p"
      and "fill_writes (forward_entries w (x # pm)) p = fill_writes (forward_entries w pm) p"
      unfolding x forward_entries_Cons using tf by auto
    moreover have "apply_promise (x # pm) (w(''GM'' \<mapsto> Obj c p)) =
        apply_promise pm (w(''GM'' \<mapsto> Obj c p))"
      unfolding x apply_promise.simps get Let_def using False
      by (auto simp add: read_GM_def lookup_global_def member_val_def)
    ultimately show ?thesis by (simp only: Cons.IH[OF notin])
  qed
qed

lemma with_polyfills_upd_GM:
  "''GM'' \<notin> set ks \<Longrightarrow>
   with_polyfills ks (w(''GM'' \<mapsto> g)) = (with_polyfills ks w)(''GM'' \<mapsto> g)"
  by (rule ext) (auto simp: with_polyfills_apply window_get_def)

lemma with_polyfills_idem: "with_polyfills ks (with_polyfills ks w) = with_polyfills ks w"
  by (rule ext) (auto simp: with_polyfills_apply window_get_def polyfill_def)

lemma polyfill_writes_frame:
  "x \<notin> set ks \<Longrightarrow> polyfill_writes ks (w(x \<mapsto> g)) = polyfill_writes ks w"
proof -
  assume "x \<notin> set ks"
  then have "filter (\<lambda>k. is_undefined (window_get (w(x \<mapsto> g)) k)) ks =
      filter (\<lambda>k. is_undefined (window_get w k)) ks"
    by (intro filter_cong) (auto simp: window_get_def)
  then show ?thesis by (simp add: polyfill_writes_def)
qed

lemma polyfill_writes_done: "polyfill_writes ks (with_polyfills ks w) = []"
  by (auto simp: polyfill_writes_def filter_empty_conv with_polyfills_apply window_get_def
      polyfill_def)

lemma apply_polyfills_eq:
  "distinct ks \<Longrightarrow> apply_polyfills ks w = (Inr (with_polyfills ks w), polyfill_writes ks w)"
proof (induction ks arbitrary: w)
  case Nil
  show ?case by (simp add: with_polyfills_def polyfill_writes_def)
next
  case (Cons key ks)
  have notin: "key \<notin> set ks" and d: "distinct ks"
    using Cons.prems by simp_all
  show ?case
  proof (cases "is_undefined (window_get w key)")
    case True
    let ?w = "w(key \<mapsto> polyfill key)"
    have win: "with_polyfills ks ?w = with_polyfills (key # ks) w"
      using True notin by (rule_tac ext) (auto simp: with_polyfills_apply window_get_def)
    have wr: "polyfill_writes (key # ks) w =
        Window_write key (polyfill key) # polyfill_writes ks ?w"
      using True by (simp add: polyfill_writes_frame[OF notin]) (simp add: polyfill_writes_def)
    have "apply_polyfills (key # ks) w =
        and_then (Inr ?w, [Window_write key (polyfill key)]) (apply_polyfills ks)"
      using True by simp
    then show ?thesis
      by (simp only: and_then_Inr Cons.IH[OF d] fst_conv snd_conv append.simps win wr)
  next
    case False
    have win: "with_polyfills ks w = with_polyfills (key # ks) w"
      using False by (rule_tac ext) (auto simp: with_polyfills_apply)
    have wr: "polyfill_writes (key # ks) w = polyfill_writes ks w"
      using False by (simp add: polyfill_writes_def)
    have "apply_polyfills (key # ks) w = apply_polyfills ks w"
      using False by simp
    then show ?thesis by (simp only: Cons.IH[OF d] win wr)
  qed
qed

lemma GM_not_polyfill: "''GM'' \<notin> set polyfills"
  by (simp add: polyfills_def)

lemma GM_info_not_polyfill: "''GM_info'' \<notin> set polyfills"
  by (simp add: polyfills_def)

lemma polyfills_distinct: "distinct polyfills"
  by (simp add: polyfills_def)

lemma GM_not_legacy: "''GM'' \<notin> fst ` set promiseMappings"
  by (simp add: promiseMappings_def)

lemma installer_object:
  assumes gm: "w ''GM'' = Some (Obj c p)" and gi: "w ''GM_info'' = Some gi"
  shows "installer w =
      (Inr ((with_polyfills polyfills w)(''GM'' \<mapsto> Obj c (installed_members w gi p))),
       installed_writes w gi p)"
proof -
  let ?p1 = "fill (direct_table gi) p"
  let ?W = "with_polyfills polyfills w"
  have init: "init_GM w = (Inr w, [])"
    using gm by (simp add: init_GM_def window_get_def)
  have dm: "directMappings w = Inr (direct_table gi)"
    using gi by (simp add: directMappings_def lookup_global_def direct_table_def)
  have d: "apply_direct (direct_table gi) w =
      (Inr (w(''GM'' \<mapsto> Obj c ?p1)), fill_writes (direct_table gi) p)"
    by (rule apply_direct_object[where w = w and c = c and p = p, OF gm])
  have pf: "apply_polyfills polyfills (w(''GM'' \<mapsto> Obj c ?p1)) =
      (Inr (?W(''GM'' \<mapsto> Obj c ?p1)), polyfill_writes polyfills w)"
    by (simp add: apply_polyfills_eq[OF polyfills_distinct]
        with_polyfills_upd_GM[OF GM_not_polyfill] polyfill_writes_frame[OF GM_not_polyfill])
  have pr: "apply_promise promiseMappings (?W(''GM'' \<mapsto> Obj c ?p1)) =
      (Inr (?W(''GM'' \<mapsto> Obj c (installed_members w gi p))),
       fill_writes (forward_entries ?W promiseMappings) ?p1)"
    unfolding installed_members_def by (rule apply_promise_upd[OF GM_not_legacy])
  show ?thesis
    by (simp add: installer_def init dm d pf pr and_then_Inr installed_writes_def)
qed

lemma installer_fresh:
  assumes gm: "\<not> truthy (window_get w ''GM'')" and gi: "w ''GM_info'' = Some gi"
  shows "installer w =
      (fst (installer (w(''GM'' \<mapsto> fresh_GM gi))),
       Window_write ''GM'' (fresh_GM gi) # snd (installer (w(''GM'' \<mapsto> fresh_GM gi))))"
proof -
  have "init_GM w = (Inr (w(''GM'' \<mapsto> fresh_GM gi)), [Window_write ''GM'' (fresh_GM gi)])"
    using gm gi by (simp add: init_GM_def lookup_global_def fresh_GM_def Let_def)
  moreover have "init_GM (w(''GM'' \<mapsto> fresh_GM gi)) = (Inr (w(''GM'' \<mapsto> fresh_GM gi)), [])"
    by (simp add: init_GM_def window_get_def fresh_GM_def)
  ultimately show ?thesis
    by (simp add: installer_def and_then_Inr)
qed

lemma installer_no_info:
  assumes "w ''GM_info'' = None"
  shows "installer w = (Inl (ReferenceError ''GM_info'', w), [])"
  using assms
  by (simp add: installer_def init_GM_def directMappings_def lookup_global_def and_then_def)

lemma installer_primitive:
  assumes gm: "w ''GM'' = Some g" and t: "truthy g" and o: "\<not> is_object g"
    and gi: "w ''GM_info'' = Some gi"
  shows "installer w = (Inl (TypeError, w), [])"
proof -
  have init: "init_GM w = (Inr w, [])"
    using gm t by (simp add: init_GM_def window_get_def)
  have dm: "directMappings w = Inr (direct_table gi)"
    using gi by (simp add: directMappings_def lookup_global_def direct_table_def)
  have rd: "read_GM w ''log'' = Inr Undefined"
    using gm t o by (cases g) (simp_all add: read_GM_def lookup_global_def)
  have wr: "assign_GM w ''log'' (console_bound ''log'') = (Inl (TypeError, w), [])"
    using gm t o by (cases g) (simp_all add: assign_GM_def lookup_global_def)
  have tc: "truthy (console_bound ''log'')" by (simp add: console_bound_def)
  have "apply_direct (direct_table gi) w = (Inl (TypeError, w), [])"
    by (simp add: direct_table_def rd wr and_then_Inl tc)
  then show ?thesis
    by (simp add: installer_def init dm and_then_Inr and_then_Inl)
qed

text \<open>The four ways the script can go: \<^verbatim>\<open>GM_info\<close> is not declared; \<^verbatim>\<open>GM\<close> is a truthy
  primitive; \<^verbatim>\<open>GM\<close> is an object; \<^verbatim>\<open>GM\<close> is falsy and a new object is made.\<close>

lemma install_cases:
  obtains (no_info) "w ''GM_info'' = None" "install w = Inl (ReferenceError ''GM_info'', w)"
      "install_writes w = []"
  | (primitive) g gi where "w ''GM'' = Some g" "truthy g" "\<not> is_object g" "w ''GM_info'' = Some gi"
      "install w = Inl (TypeError, w)" "install_writes w = []"
  | (object) c p gi where "w ''GM'' = Some (Obj c p)" "w ''GM_info'' = Some gi"
      "install w = Inr ((with_polyfills polyfills w)(''GM'' \<mapsto> Obj c (installed_members w gi p)))"
      "install_writes w = installed_writes w gi p"
  | (fresh) gi where "\<not> truthy (window_get w ''GM'')" "w ''GM_info'' = Some gi"
      "install w = Inr ((with_polyfills polyfills w)
                      (''GM'' \<mapsto> Obj None (installed_members w gi
                          (Map.empty(''info'' \<mapsto> (if truthy gi then gi else empty_object),
                                     ''version'' \<mapsto> Str ''4.0.0'')))))"
      "install_writes w =
         Window_write ''GM'' (fresh_GM gi) #
         installed_writes w gi (Map.empty(''info'' \<mapsto> (if truthy gi then gi else empty_object),
                                          ''version'' \<mapsto> Str ''4.0.0''))"
proof (cases "w ''GM_info''")
  case None
  then show ?thesis
    using no_info installer_no_info[where w = w, OF None] by (simp add: install_def install_writes_def)
next
  case (Some gi)
  show ?thesis
  proof (cases "truthy (window_get w ''GM'')")
    case True
    then obtain g where g: "w ''GM'' = Some g" "truthy g"
      by (auto simp: window_get_def split: option.splits)
    show ?thesis
    proof (cases "is_object g")
      case True
      then obtain c p where "g = Obj c p" by (cases g) auto
      then have gm: "w ''GM'' = Some (Obj c p)" using g by simp
      show ?thesis
        using object[OF gm Some] installer_object[where w = w, OF gm Some]
        by (simp add: install_def install_writes_def)
    next
      case False
      show ?thesis
        using primitive[OF g False Some] installer_primitive[where w = w, OF g False Some]
        by (simp add: install_def install_writes_def)
    qed
  next
    case False
    let ?w = "w(''GM'' \<mapsto> fresh_GM gi)"
    let ?p0 = "Map.empty(''info'' \<mapsto> (if truthy gi then gi else empty_object),
                         ''version'' \<mapsto> Str ''4.0.0'')"
    have a: "installer w = (fst (installer ?w), Window_write ''GM'' (fresh_GM gi) # snd (installer ?w))"
      by (rule installer_fresh[where w = w, OF False Some])
    have b: "installer ?w =
        (Inr ((with_polyfills polyfills ?w)(''GM'' \<mapsto> Obj None (installed_members ?w gi ?p0))),
         installed_writes ?w gi ?p0)"
      by (rule installer_object) (simp_all add: fresh_GM_def Some)
    have c: "with_polyfills polyfills ?w = (with_polyfills polyfills w)(''GM'' \<mapsto> fresh_GM gi)"
      by (rule with_polyfills_upd_GM[OF GM_not_polyfill])
    have d: "installed_members ?w gi = installed_members w gi"
      by (rule ext) (simp add: installed_members_def with_polyfills_upd_GM[OF GM_not_polyfill]
          forward_entries_frame[OF GM_not_legacy])
    have e: "installed_writes ?w gi = installed_writes w gi"
      by (rule ext) (simp add: installed_writes_def with_polyfills_upd_GM[OF GM_not_polyfill]
          forward_entries_frame[OF GM_not_legacy] polyfill_writes_frame[OF GM_not_polyfill])
    show ?thesis
      using fresh[OF False Some] a b c d e by (simp add: install_def install_writes_def)
  qed
qed

lemma legacy_key_not_GM: "k \<in> fst ` set promiseMappings \<Longrightarrow> k \<noteq> ''GM''"
  using GM_not_legacy by blast

lemma installed_members_absorb:
  assumes "\<And>k. k \<in> fst ` set promiseMappings \<Longrightarrow> w' k = with_polyfills polyfills w k"
  shows "installed_members w' gi (installed_members w gi p) = installed_members w gi p"
    and "fill_writes (direct_table gi) (installed_members w gi p) = []"
    and "fill_writes (forward_entries (with_polyfills polyfills w') promiseMappings)
           (fill (direct_table gi) (installed_members w gi p)) = []"
proof -
  have poly: "\<And>k. k \<in> fst ` set promiseMappings \<Longrightarrow>
      with_polyfills polyfills w' k = with_polyfills polyfills w k"
    using assms by (auto simp: with_polyfills_apply window_get_def polyfill_def)
  have "\<And>oldKey newKey. (oldKey, newKey) \<in> set promiseMappings \<Longrightarrow>
      window_get (with_polyfills polyfills w') oldKey = window_get (with_polyfills polyfills w) oldKey"
    using poly by (force simp: window_get_def)
  then have fe: "forward_entries (with_polyfills polyfills w') promiseMappings =
      forward_entries (with_polyfills polyfills w) promiseMappings"
    by (auto simp: forward_entries_def)
  have d: "fill (direct_table gi) (installed_members w gi p) = installed_members w gi p"
    unfolding installed_members_def by (simp only: fill_absorb)
  show "installed_members w' gi (installed_members w gi p) = installed_members w gi p"
    unfolding installed_members_def fe by (simp only: fill_absorb fill_idem)
  show "fill_writes (direct_table gi) (installed_members w gi p) = []"
    by (rule fill_writes_Nil[OF d])
  show "fill_writes (forward_entries (with_polyfills polyfills w') promiseMappings)
           (fill (direct_table gi) (installed_members w gi p)) = []"
    unfolding d fe by (rule fill_writes_Nil) (simp only: installed_members_def fill_idem)
qed

text \<open>On the global object a complete run has left, the script runs to its end again,
  leaves the global object as it is and executes no assignment.\<close>

lemma installer_again:
  assumes info: "w ''GM_info'' = Some gi"
    and w': "w' = (with_polyfills polyfills w)(''GM'' \<mapsto> Obj c' (installed_members w gi p'))"
  shows "installer w' = (Inr w', [])"
proof -
  let ?q = "installed_members w gi p'"
  have gm: "w' ''GM'' = Some (Obj c' ?q)" by (simp add: w')
  have gi: "w' ''GM_info'' = Some gi"
    using info by (simp add: w' with_polyfills_apply GM_info_not_polyfill)
  have pf: "with_polyfills polyfills w' = w'"
    by (simp add: w' with_polyfills_upd_GM[OF GM_not_polyfill] with_polyfills_idem)
  have pw: "polyfill_writes polyfills w' = []"
    by (simp add: w' polyfill_writes_frame[OF GM_not_polyfill] polyfill_writes_done)
  have same: "\<And>k. k \<in> fst ` set promiseMappings \<Longrightarrow> w' k = with_polyfills polyfills w k"
    by (simp add: w' legacy_key_not_GM)
  have "installer w' =
      (Inr ((with_polyfills polyfills w')(''GM'' \<mapsto> Obj c' (installed_members w' gi ?q))),
       installed_writes w' gi ?q)"
    by (rule installer_object[where w = w', OF gm gi])
  moreover have "installed_writes w' gi ?q = []"
    by (simp add: installed_writes_def pw installed_members_absorb(2,3)[OF same])
  ultimately show ?thesis
    by (simp add: pf installed_members_absorb(1)[OF same]) (simp add: w')
qed

lemma install_Inr_again:
  assumes "install w = Inr w'"
  shows "installer w' = (Inr w', [])"
proof (cases w rule: install_cases)
  case no_info
  then show ?thesis using assms by simp
next
  case (primitive g gi)
  then show ?thesis using assms by simp
next
  case (object c p gi)
  have "w' = (with_polyfills polyfills w)(''GM'' \<mapsto> Obj c (installed_members w gi p))"
    using assms object by simp
  then show ?thesis by (rule installer_again[where w = w, OF object(2)])
next
  case (fresh gi)
  let ?p0 = "Map.empty(''info'' \<mapsto> (if truthy gi then gi else empty_object),
                                     ''version'' \<mapsto> Str ''4.0.0'')"
  have "w' = (with_polyfills polyfills w)(''GM'' \<mapsto> Obj None (installed_members w gi ?p0))"
    using assms fresh by simp
  then show ?thesis by (rule installer_again[where w = w, OF fresh(2)])
qed

lemma install_Inl_unchanged:
  assumes "install w = Inl (e, w')"
  shows "w' = w" and "install_writes w = []"
  by (cases w rule: install_cases; use assms in auto)+

text \<open>
  C3. The installation is idempotent: run again on the global object the first run left,
  the script ends the same way and leaves the same global object, and it executes no
  assignment at all, neither on the unified namespace nor on the legacy surface: no entry
  is wrapped a second time and no entry is replaced, not even by an equal value.
\<close>

theorem install_idempotent:
  "install (final (install w)) = install w \<and> install_writes (final (install w)) = []"
proof (cases "install w")
  case (Inl x)
  obtain e w' where x: "x = (e, w')" by (cases x)
  have "w' = w" and "install_writes w = []"
    using Inl x install_Inl_unchanged[of w e w'] by simp_all
  then show ?thesis using Inl x by (simp add: final_def)
next
  case (Inr w')
  then show ?thesis
    using install_Inr_again[OF Inr] by (simp add: final_def install_def install_writes_def)
qed

lemmas install_eval =
  install_def install_writes_def installer_def init_GM_def window_get_def lookup_global_def
  directMappings_def and_then_def read_GM_def assign_GM_def console_bound_def empty_object_def
  promiseMappings_def polyfills_def polyfill_def forwarder_def native_def final_def
  GM_member_def Let_def

theorem install_idempotent_witness:
  "install (final (install legacy_host)) = install legacy_host \<and>
   install_writes (final (install legacy_host)) = [] \<and>
   length (install_writes legacy_host) = 11"
proof -
  have "length (install_writes legacy_host) = 11"
    by (simp add: install_eval legacy_host_def)
  then show ?thesis
    using install_idempotent[of legacy_host] by simp
qed

section \<open>The members the installer writes\<close>

lemma first_truthy_None: "k \<notin> fst ` set xs \<Longrightarrow> first_truthy xs k = None"
  by (induction xs) auto

lemma forward_entries_keys: "fst ` set (forward_entries w pm) = snd ` set pm"
  by (force simp: forward_entries_def)

lemma first_truthy_forward:
  "distinct (map snd pm) \<Longrightarrow> (oldKey, newKey) \<in> set pm \<Longrightarrow>
   first_truthy (forward_entries w pm) newKey =
     (if truthy (window_get w oldKey) then Some (forwarder (window_get w oldKey)) else None)"
proof (induction pm)
  case Nil
  then show ?case by simp
next
  case (Cons x pm)
  obtain a b where x: "x = (a, b)" by (cases x)
  show ?case
  proof (cases "b = newKey")
    case True
    then have "newKey \<notin> snd ` set pm" using Cons.prems(1) by (simp add: x)
    then have rest: "first_truthy (forward_entries w pm) newKey = None"
      and a: "a = oldKey"
      using Cons.prems(2) True by (force simp: x first_truthy_None forward_entries_keys)+
    show ?thesis
      by (simp add: x forward_entries_Cons True rest a forwarder_def)
  next
    case False
    then have "(oldKey, newKey) \<in> set pm" using Cons.prems(2) by (simp add: x)
    then show ?thesis using Cons False by (simp add: x forward_entries_Cons)
  qed
qed

lemma unified_names_distinct: "distinct (map snd promiseMappings)"
  by (simp add: promiseMappings_def)

lemma first_truthy_direct:
  "(oldKey, newKey) \<in> set promiseMappings \<Longrightarrow> first_truthy (direct_table gi) newKey = None"
  by (auto simp: promiseMappings_def direct_table_def)

lemma unified_name_not_base:
  "(oldKey, newKey) \<in> set promiseMappings \<Longrightarrow> newKey \<noteq> ''info'' \<and> newKey \<noteq> ''version''"
  by (auto simp: promiseMappings_def)

lemma falsy_own_prop: "\<not> truthy g \<Longrightarrow> own_prop g k = None"
  by (cases g) auto

text \<open>The member under a unified name once the script has run to its end.\<close>

lemma installed_member_unified:
  assumes "(oldKey, newKey) \<in> set promiseMappings"
  shows "installed_members w gi p newKey =
     (if truthy (member_val p newKey) then p newKey
      else if truthy (window_get (with_polyfills polyfills w) oldKey)
           then Some (forwarder (window_get (with_polyfills polyfills w) oldKey))
           else p newKey)"
proof -
  have d: "fill (direct_table gi) p newKey = p newKey"
    by (simp add: fill_apply first_truthy_direct[OF assms])
  then have m: "member_val (fill (direct_table gi) p) newKey = member_val p newKey"
    by (simp add: member_val_def)
  show ?thesis
    unfolding installed_members_def
    by (simp add: fill_apply[of "forward_entries (with_polyfills polyfills w) promiseMappings"]
        d m first_truthy_forward[OF unified_names_distinct assms])
qed

text \<open>
  C9. A legacy name of the mapping table that is bound to a defined but falsy value keeps
  that value through the installation (the polyfill loop tests for undefined), and the
  member of the unified namespace under the paired name is as it was before (the promise
  loop tests the legacy value for truth): a name that was absent stays absent.
\<close>

theorem falsy_legacy_binding_not_forwarded:
  assumes pair: "(oldKey, newKey) \<in> set promiseMappings"
    and bound: "w oldKey = Some v" and defined: "\<not> is_undefined v" and falsy: "\<not> truthy v"
  shows "final (install w) oldKey = Some v \<and>
         GM_member (final (install w)) newKey = GM_member w newKey"
proof -
  have ne: "oldKey \<noteq> ''GM''"
    using pair legacy_key_not_GM by force
  have old: "window_get (with_polyfills polyfills w) oldKey = v"
    using bound defined by (simp add: with_polyfills_apply window_get_def)
  have mem: "\<And>gi p. installed_members w gi p newKey = p newKey"
    by (simp add: installed_member_unified[OF pair] old falsy)
  have keep: "\<And>g. ((with_polyfills polyfills w)(''GM'' \<mapsto> g)) oldKey = Some v"
    using ne bound defined by (simp add: with_polyfills_apply window_get_def)
  show ?thesis
  proof (cases w rule: install_cases)
    case no_info
    then show ?thesis using bound by (simp add: final_def)
  next
    case (primitive g gi)
    then show ?thesis using bound by (simp add: final_def)
  next
    case (object c p gi)
    then show ?thesis
      using keep by (simp add: final_def GM_member_def window_get_def mem)
  next
    case (fresh gi)
    have "GM_member w newKey = None"
      using fresh(1) by (simp add: GM_member_def falsy_own_prop)
    then show ?thesis
      using fresh keep unified_name_not_base[OF pair]
      by (simp add: final_def GM_member_def window_get_def mem)
  qed
qed

theorem falsy_legacy_binding_not_forwarded_witness:
  "final (install null_legacy_host) ''GM_setValue'' = Some Null \<and>
   GM_member (final (install null_legacy_host)) ''setValue'' = None"
  using falsy_legacy_binding_not_forwarded[of "''GM_setValue''" "''setValue''" null_legacy_host Null]
  by (simp add: promiseMappings_def null_legacy_host_def GM_member_def window_get_def)

text \<open>
  C8, as amended. For a legacy name that is undefined on the legacy surface and has a
  polyfill, when the unified namespace has no truthy member under the paired name and the
  script runs to its end, the legacy name is bound to the polyfill and the member under
  the paired name is the forwarding function of that polyfill.
\<close>

theorem polyfill_forwarded_when_unified_name_free:
  assumes key: "key \<in> set polyfills" and pair: "(key, newKey) \<in> set promiseMappings"
    and undef: "is_undefined (window_get w key)"
    and free: "\<not> truthy (GM_get w newKey)"
    and ends: "install w = Inr w'"
  shows "w' key = Some (polyfill key) \<and> GM_member w' newKey = Some (forwarder (polyfill key))"
proof -
  have ne: "key \<noteq> ''GM''"
    using pair legacy_key_not_GM by force
  have old: "with_polyfills polyfills w key = Some (polyfill key)"
    using key undef by (simp add: with_polyfills_apply)
  then have get: "window_get (with_polyfills polyfills w) key = polyfill key"
    by (simp add: window_get_def)
  have tp: "truthy (polyfill key)" by (simp add: polyfill_def)
  have mem: "\<And>gi p. \<not> truthy (member_val p newKey) \<Longrightarrow>
      installed_members w gi p newKey = Some (forwarder (polyfill key))"
    by (simp add: installed_member_unified[OF pair] get tp)
  show ?thesis
  proof (cases w rule: install_cases)
    case no_info
    then show ?thesis using ends by simp
  next
    case (primitive g gi)
    then show ?thesis using ends by simp
  next
    case (object c p gi)
    have "\<not> truthy (member_val p newKey)"
      using free object(1) by (simp add: GM_get_def GM_member_def window_get_def member_val_def)
    then show ?thesis
      using object ends ne old by (auto simp: GM_member_def window_get_def mem)
  next
    case (fresh gi)
    have "\<not> truthy (member_val (Map.empty(''info'' \<mapsto> (if truthy gi then gi else empty_object),
                                     ''version'' \<mapsto> Str ''4.0.0'')) newKey)"
      using unified_name_not_base[OF pair] by (simp add: member_val_def)
    then show ?thesis
      using fresh ends ne old by (auto simp: GM_member_def window_get_def mem)
  qed
qed

theorem polyfill_forwarded_when_unified_name_free_witness:
  "final (install legacy_host) ''GM_addStyle'' = Some (polyfill ''GM_addStyle'') \<and>
   GM_member (final (install legacy_host)) ''addStyle'' = Some (forwarder (polyfill ''GM_addStyle''))"
proof -
  have ends: "install legacy_host = Inr (final (install legacy_host))"
    by (simp add: install_eval legacy_host_def)
  show ?thesis
    using polyfill_forwarded_when_unified_name_free[of "''GM_addStyle''" "''addStyle''" legacy_host,
        OF _ _ _ _ ends]
    by (simp add: polyfills_def promiseMappings_def legacy_host_def window_get_def GM_get_def
        GM_member_def)
qed

text \<open>
  C8 as stated fails where the host provides the unified member itself: the native
  \<^verbatim>\<open>GM.addStyle\<close> stays, and nothing forwards to the polyfill of \<^verbatim>\<open>GM_addStyle\<close>.
\<close>

theorem native_unified_member_not_forwarded:
  "is_undefined (window_get unified_host ''GM_addStyle'') \<and>
   GM_member (final (install unified_host)) ''addStyle'' = Some (native 7) \<and>
   native 7 \<noteq> forwarder (polyfill ''GM_addStyle'')"
  by (simp add: install_eval unified_host_def)

section \<open>What the installer keeps, and what a forwarding function does\<close>









lemma promisify_fate:
  "fate (promisify app to_ms fn timeout args start) = Some (direct_call app fn args)"
  by (cases "app fn args"; cases "fst (app fn args)")
     (simp_all add: promisify_def direct_call_def setTimeout_def clearTimeout_def resolve_def
        reject_def Let_def)

lemma promisify_timer: "timer (promisify app to_ms fn timeout args start) = None"
  by (cases "app fn args"; cases "fst (app fn args)")
     (simp_all add: promisify_def setTimeout_def clearTimeout_def resolve_def reject_def Let_def)

lemma promisify_clock:
  "clock (promisify app to_ms fn timeout args start) = start + snd (app fn args)"
  by (cases "app fn args"; cases "fst (app fn args)")
     (simp_all add: promisify_def setTimeout_def clearTimeout_def resolve_def reject_def Let_def)

lemma promisify_elapse:
  "elapse n (promisify app to_ms fn timeout args start) =
     (promisify app to_ms fn timeout args start)\<lparr>clock := start + snd (app fn args) + n\<rparr>"
  by (simp add: elapse_def promisify_timer promisify_clock Let_def)

lemma forward_call_tail:
  "fate (forward_call app to_ms old (a # rest) start) = Some (direct_call app old rest)"
  by (simp add: forward_call_def promisify_fate)

text \<open>
  C1, at the input where the code departs from it. On a host with a native
  \<^verbatim>\<open>GM_getValue\<close> the installer puts its forwarding function under \<^verbatim>\<open>GM.getValue\<close>; the
  legacy call \<^verbatim>\<open>GM_getValue('k')\<close> returns the stored value, and the forwarding function
  called with \<^verbatim>\<open>'k'\<close> is fulfilled with undefined: \<^verbatim>\<open>promisify\<close> takes \<^verbatim>\<open>'k'\<close> as its
  timeout and applies the legacy function to no argument.
\<close>

theorem forwarding_function_drops_first_argument:
  "GM_member (final (install legacy_host)) ''getValue'' = Some (forwarder (native 0)) \<and>
   direct_call legacy_getValue (native 0) [Str ''k''] = Fulfils (Str ''stored'') \<and>
   fate (forward_call legacy_getValue milliseconds (native 0) [Str ''k''] 0) =
     Some (Fulfils Undefined)"
proof -
  have "GM_member (final (install legacy_host)) ''getValue'' = Some (forwarder (native 0))"
    by (simp add: install_eval legacy_host_def)
  moreover have "direct_call legacy_getValue (native 0) [Str ''k''] = Fulfils (Str ''stored'')"
    by (simp add: direct_call_def legacy_getValue_def)
  moreover have "fate (forward_call legacy_getValue milliseconds (native 0) [Str ''k''] 0) =
     Some (Fulfils Undefined)"
    by (simp add: forward_call_tail direct_call_def legacy_getValue_def)
  ultimately show ?thesis by simp
qed

text \<open>
  C4, at the inputs where the code departs from it. For a function that returns a promise
  which never settles, the deferred is still pending after the five seconds of its timeout
  and its timer is gone; for a function that runs for six seconds and returns 1, the
  deferred is fulfilled with 1, one second after the deadline.
\<close>

theorem promisify_timeout_never_rejects:
  "fate (elapse 5000 (promisify never_settles milliseconds (native 0) (Num 5000) [] 0)) =
     Some Never \<and>
   timer (promisify never_settles milliseconds (native 0) (Num 5000) [] 0) = None \<and>
   fate (promisify six_seconds milliseconds (native 0) (Num 5000) [] 0) =
     Some (Fulfils (Num 1)) \<and>
   clock (promisify six_seconds milliseconds (native 0) (Num 5000) [] 0) = 6000"
  by (simp add: promisify_elapse promisify_fate promisify_timer promisify_clock direct_call_def
      never_settles_def six_seconds_def)

section \<open>The waiter on a run of events\<close>

lemma run_Nil: "run s [] = s"
  by (simp add: run_def)

lemma run_Cons: "run s (ev # evs) = run (step s ev) evs"
  by (simp add: run_def)

lemma run_append: "run s (xs @ ys) = run (run s xs) ys"
  by (simp add: run_def)

text \<open>A waiter without timer and observer is never touched again.\<close>

lemma step_settled:
  "w_timer (wt s) = None \<Longrightarrow> \<not> observing (wt s) \<Longrightarrow> wt (step s ev) = wt s"
  by (cases ev) (simp_all add: on_mutation_def)

lemma run_settled:
  "w_timer (wt s) = None \<Longrightarrow> \<not> observing (wt s) \<Longrightarrow> wt (run s evs) = wt s"
proof (induction evs arbitrary: s)
  case Nil
  show ?case by (simp add: run_Nil)
next
  case (Cons ev evs)
  have "wt (step s ev) = wt s" using Cons.prems by (rule step_settled)
  then show ?case using Cons by (simp add: run_Cons)
qed

text \<open>A pending waiter that sees no body: it is as it was until its timer is due, and timed
  out from then on.\<close>

lemma run_pending:
  assumes "wt s = \<lparr>w_fate = None, w_timer = Some due, observing = ob, resolve_calls = 0\<rparr>"
    and "now s < due"
    and "ob \<longrightarrow> (\<forall>ev\<in>set evs. \<not> shows_body ev)"
  shows "wt (run s evs) = (if due \<le> now s + elapsed evs then timed_out else wt s)"
  using assms
proof (induction evs arbitrary: s)
  case Nil
  then show ?case by (simp add: run_Nil)
next
  case (Cons ev evs)
  show ?case
  proof (cases ev)
    case (Mutation d)
    have same: "wt (step s ev) = wt s"
      using Cons.prems(1,3) by (simp add: Mutation on_mutation_def)
    have t: "now (step s ev) = now s" and el: "elapsed (ev # evs) = elapsed evs"
      by (simp_all add: Mutation)
    have "wt (run (step s ev) evs) =
        (if due \<le> now (step s ev) + elapsed evs then timed_out else wt (step s ev))"
      by (rule Cons.IH) (use Cons.prems same t in simp_all)
    then show ?thesis by (simp add: run_Cons same t el)
  next
    case (Elapse n)
    show ?thesis
    proof (cases "due \<le> now s + n")
      case True
      have out: "wt (step s ev) = timed_out"
        using Cons.prems(1) True by (simp add: Elapse on_timeout_def timed_out_def)
      have el: "elapsed (ev # evs) = n + elapsed evs"
        by (simp add: Elapse)
      have "wt (run (step s ev) evs) = wt (step s ev)"
        by (rule run_settled) (simp_all add: out timed_out_def)
      then show ?thesis using True by (simp add: run_Cons out el)
    next
      case False
      have same: "wt (step s ev) = wt s" and t: "now (step s ev) = now s + n"
        using Cons.prems(1) False by (simp_all add: Elapse)
      have el: "elapsed (ev # evs) = n + elapsed evs"
        by (simp add: Elapse)
      have "wt (run (step s ev) evs) =
          (if due \<le> now (step s ev) + elapsed evs then timed_out else wt (step s ev))"
        by (rule Cons.IH) (use Cons.prems same t False in simp_all)
      then show ?thesis by (simp add: run_Cons same t el add.assoc)
    qed
  qed
qed

lemma call_present:
  "truthy (body d) \<Longrightarrow> wt (call_waitForBody d timeout start) = found (body d)"
  by (simp add: call_waitForBody_def waitForBody_def found_def)

lemma call_absent:
  "\<not> truthy (body d) \<Longrightarrow>
   wt (call_waitForBody d timeout start) =
     \<lparr>w_fate = None, w_timer = Some (start + deadline timeout),
      observing = (readyState d = ''loading'' \<and> truthy (documentElement d)),
      resolve_calls = 0\<rparr>"
  by (simp add: call_waitForBody_def waitForBody_def deadline_def)

lemma call_now: "now (call_waitForBody d timeout start) = start"
  by (simp add: call_waitForBody_def)

section \<open>The waiter: resolution and deadline\<close>

text \<open>
  C6, as amended. When the body exists at the call, the waiter is resolved with it at once
  and no observer is ever registered. When the body is absent, the document is loading and
  has a root element, and the body first shows in a mutation before the deadline, the
  waiter is resolved with it, \<^verbatim>\<open>resolve\<close> has been called once, and observer and timer are
  gone from then on.
\<close>

theorem waitForBody_resolves_under_observation:
  "(truthy (body d) \<longrightarrow> wt (run (call_waitForBody d timeout start) evs) = found (body d)) \<and>
   (\<not> truthy (body d) \<and> readyState d = ''loading'' \<and> truthy (documentElement d) \<and>
    (\<forall>ev\<in>set pre. \<not> shows_body ev) \<and> elapsed pre < deadline timeout \<and> truthy (body d') \<longrightarrow>
      wt (run (call_waitForBody d timeout start) (pre @ Mutation d' # post)) = found (body d'))"
proof (intro conjI impI)
  assume "truthy (body d)"
  then have "wt (call_waitForBody d timeout start) = found (body d)"
    by (rule call_present)
  moreover have "wt (run (call_waitForBody d timeout start) evs) =
      wt (call_waitForBody d timeout start)"
    by (rule run_settled) (simp_all add: calculation found_def)
  ultimately show "wt (run (call_waitForBody d timeout start) evs) = found (body d)"
    by simp
next
  let ?s = "call_waitForBody d timeout start"
  let ?w = "\<lparr>w_fate = None, w_timer = Some (start + deadline timeout), observing = True,
            resolve_calls = 0\<rparr>"
  assume a: "\<not> truthy (body d) \<and> readyState d = ''loading'' \<and> truthy (documentElement d) \<and>
    (\<forall>ev\<in>set pre. \<not> shows_body ev) \<and> elapsed pre < deadline timeout \<and> truthy (body d')"
  then have w0: "wt ?s = ?w"
    by (simp add: call_absent)
  have "wt (run ?s pre) =
      (if start + deadline timeout \<le> now ?s + elapsed pre then timed_out else wt ?s)"
    by (rule run_pending[OF w0]) (use a in \<open>simp_all add: call_now\<close>)
  then have w1: "wt (run ?s pre) = ?w"
    using a by (simp add: call_now w0)
  have w2: "wt (step (run ?s pre) (Mutation d')) = found (body d')"
    using a by (simp add: w1 on_mutation_def found_def)
  have "wt (run (step (run ?s pre) (Mutation d')) post) = wt (step (run ?s pre) (Mutation d'))"
    by (rule run_settled) (simp_all only: w2, simp_all add: found_def)
  then have w3: "wt (run (step (run ?s pre) (Mutation d')) post) = found (body d')"
    by (simp only: w2)
  show "wt (run ?s (pre @ Mutation d' # post)) = found (body d')"
    unfolding run_append run_Cons by (rule w3)
qed

lemma example_docs:
  "\<not> truthy (body loading_doc)" "readyState loading_doc = ''loading''"
  "truthy (documentElement loading_doc)"
  "truthy (body loading_doc_with_body)" "body loading_doc_with_body = element ''BODY''"
  "\<not> truthy (body bodyless_doc)" "readyState bodyless_doc \<noteq> ''loading''"
  "truthy (body bodyless_doc_with_body)" "truthy (element ''BODY'')"
  by (simp_all add: loading_doc_def loading_doc_with_body_def bodyless_doc_def
      bodyless_doc_with_body_def element_def)

theorem waitForBody_resolves_under_observation_witness:
  "wt (run (call_waitForBody loading_doc_with_body None 0) [Elapse 20000]) =
     found (element ''BODY'') \<and>
   wt (run (call_waitForBody loading_doc None 0)
         ([Elapse 300, Mutation loading_doc] @ Mutation loading_doc_with_body # [Elapse 20000])) =
     found (element ''BODY'')"
  using waitForBody_resolves_under_observation
          [of loading_doc_with_body None 0 "[Elapse 20000]" "[]" loading_doc_with_body "[]"]
        waitForBody_resolves_under_observation
          [of loading_doc None 0 "[]" "[Elapse 300, Mutation loading_doc]" loading_doc_with_body
              "[Elapse 20000]"]
  by (simp add: example_docs deadline_def)

text \<open>
  C6 as stated fails on a document that is not loading: the body appears, the waiter
  stays pending and is rejected at the deadline. It also fails when the body of a loading
  document appears after the deadline.
\<close>

theorem waitForBody_misses_unobserved_body:
  "\<not> truthy (body bodyless_doc) \<and> truthy (body bodyless_doc_with_body) \<and>
   w_fate (wt (run (call_waitForBody bodyless_doc None 0) [Mutation bodyless_doc_with_body])) = None \<and>
   wt (run (call_waitForBody bodyless_doc None 0) [Mutation bodyless_doc_with_body, Elapse 10000]) =
     timed_out \<and>
   wt (run (call_waitForBody loading_doc None 0) [Elapse 10000, Mutation loading_doc_with_body]) =
     timed_out"
  by (simp add: run_def call_waitForBody_def waitForBody_def bodyless_doc_def
      bodyless_doc_with_body_def loading_doc_def loading_doc_with_body_def element_def
      on_mutation_def on_timeout_def timed_out_def deadline_def Let_def)

lemma register_timed_out:
  assumes "wt (run (call_waitForBody d None start) evs) = timed_out"
  shows "register_on_page w dm d start evs caption commandFunc key =
           (Fulfils None, dm, timeout_logged)"
  by (simp add: register_on_page_def GM_registerMenuCommand_def assms timed_out_def
      timeout_logged_def)

text \<open>
  C10. With no argument the timer of the waiter is due 10000 milliseconds after the call.
  When the body is absent at the call and no mutation shows it before the deadline has
  passed, the waiter is rejected with the timeout error and its observer is disconnected,
  whatever happens later. When the document is not loading (or has no root element), no
  observer is ever registered, the waiter is pending before the deadline and rejected from the deadline on,
  also when the body has appeared in between. In both cases
  \<^verbatim>\<open>GM_registerMenuCommand\<close> logs the error and returns \<^verbatim>\<open>null\<close>, leaving the DOM as it was.
\<close>

theorem waitForBody_default_deadline:
  "(\<not> truthy (body d) \<longrightarrow> w_timer (waitForBody d None start) = Some (start + 10000)) \<and>
   (\<not> truthy (body d) \<and> (\<forall>ev\<in>set pre. \<not> shows_body ev) \<and> 10000 \<le> elapsed pre \<longrightarrow>
      wt (run (call_waitForBody d None start) (pre @ post)) = timed_out \<and>
      register_on_page w dm d start (pre @ post) caption commandFunc key =
        (Fulfils None, dm, timeout_logged)) \<and>
   (\<not> truthy (body d) \<and> (readyState d \<noteq> ''loading'' \<or> \<not> truthy (documentElement d)) \<longrightarrow>
      \<not> observing (wt (run (call_waitForBody d None start) evs)) \<and>
      (elapsed evs < 10000 \<longrightarrow> w_fate (wt (run (call_waitForBody d None start) evs)) = None) \<and>
      (10000 \<le> elapsed evs \<longrightarrow>
         wt (run (call_waitForBody d None start) evs) = timed_out \<and>
         register_on_page w dm d start evs caption commandFunc key =
           (Fulfils None, dm, timeout_logged)))"
proof (intro conjI impI)
  assume "\<not> truthy (body d)"
  then show "w_timer (waitForBody d None start) = Some (start + 10000)"
    by (simp add: waitForBody_def deadline_def)
next
  let ?s = "call_waitForBody d None start"
  assume a: "\<not> truthy (body d) \<and> (\<forall>ev\<in>set pre. \<not> shows_body ev) \<and> 10000 \<le> elapsed pre"
  then have w0: "wt ?s = \<lparr>w_fate = None, w_timer = Some (start + 10000),
      observing = (readyState d = ''loading'' \<and> truthy (documentElement d)), resolve_calls = 0\<rparr>"
    by (simp add: call_absent deadline_def)
  have "wt (run ?s pre) = (if start + 10000 \<le> now ?s + elapsed pre then timed_out else wt ?s)"
    by (rule run_pending[OF w0]) (use a in \<open>simp_all add: call_now\<close>)
  then have w1: "wt (run ?s pre) = timed_out"
    using a by (simp add: call_now)
  have "wt (run (run ?s pre) post) = wt (run ?s pre)"
    by (rule run_settled) (simp_all add: w1 timed_out_def)
  then show out: "wt (run ?s (pre @ post)) = timed_out"
    by (simp add: run_append w1)
  show "register_on_page w dm d start (pre @ post) caption commandFunc key =
        (Fulfils None, dm, timeout_logged)"
    by (rule register_timed_out[OF out])
next
  let ?s = "call_waitForBody d None start"
  assume a: "\<not> truthy (body d) \<and> (readyState d \<noteq> ''loading'' \<or> \<not> truthy (documentElement d))"
  then have w0: "wt ?s = \<lparr>w_fate = None, w_timer = Some (start + 10000),
      observing = False, resolve_calls = 0\<rparr>"
    by (simp add: call_absent deadline_def)
  have r: "wt (run ?s evs) = (if start + 10000 \<le> now ?s + elapsed evs then timed_out else wt ?s)"
    by (rule run_pending[OF w0]) (simp_all add: call_now)
  show "\<not> observing (wt (run ?s evs))"
    by (simp add: r w0 timed_out_def)
  {
    assume "elapsed evs < 10000"
    then show "w_fate (wt (run ?s evs)) = None"
      by (simp add: r w0 call_now)
  }
  {
    assume "10000 \<le> elapsed evs"
    then show out: "wt (run ?s evs) = timed_out"
      by (simp add: r call_now)
    show "register_on_page w dm d start evs caption commandFunc key =
           (Fulfils None, dm, timeout_logged)"
      by (rule register_timed_out[OF out])
  }
qed

theorem waitForBody_default_deadline_witness:
  "w_timer (waitForBody bodyless_doc None 0) = Some 10000 \<and>
   wt (run (call_waitForBody loading_doc None 0)
         ([Mutation loading_doc, Elapse 10000] @ [Mutation loading_doc_with_body])) = timed_out \<and>
   \<not> observing (wt (run (call_waitForBody bodyless_doc None 0)
         [Mutation bodyless_doc_with_body, Elapse 10000])) \<and>
   wt (run (call_waitForBody bodyless_doc None 0)
         [Mutation bodyless_doc_with_body, Elapse 10000]) = timed_out \<and>
   register_on_page legacy_host empty_dom bodyless_doc 0
         [Mutation bodyless_doc_with_body, Elapse 10000] (Str ''Run'') (native 1) Undefined =
     (Fulfils None, empty_dom, timeout_logged)"
  using waitForBody_default_deadline
          [of bodyless_doc 0 "[]" "[]" legacy_host empty_dom "Str ''Run''" "native 1" Undefined
              "[Mutation bodyless_doc_with_body, Elapse 10000]"]
        waitForBody_default_deadline
          [of loading_doc 0 "[Mutation loading_doc, Elapse 10000]" "[Mutation loading_doc_with_body]"
              legacy_host empty_dom "Str ''Run''" "native 1" Undefined "[]"]
  by (simp add: example_docs timed_out_def)

section \<open>The menu-command polyfill: clicks on an entry\<close>

lemma registered_item:
  assumes "GM_registerMenuCommand w dm waited caption commandFunc key = (Fulfils (Some item), dm', lg)"
  shows "item = new_menuitem caption commandFunc key"
  using assms
  by (auto simp: GM_registerMenuCommand_def Let_def
      split: option.splits settle.splits sum.splits)

lemma escapes_wrappedCommand: "escapes (fst (wrappedCommand app commandFunc args)) = []"
  by (cases "await (fst (app commandFunc args))") (simp_all add: wrappedCommand_def)

lemma logged_wrappedCommand:
  "snd (wrappedCommand app commandFunc args) =
     (case await (fst (app commandFunc args)) of
        Raised e \<Rightarrow> [(''Menu command error:'', e)]
      | _ \<Rightarrow> [])"
  by (cases "await (fst (app commandFunc args))") (simp_all add: wrappedCommand_def)

lemma click_new_menuitem:
  "click app ev (new_menuitem caption commandFunc key) =
     \<lparr>item_after = (new_menuitem caption commandFunc key)\<lparr>click_listeners := []\<rparr>,
      uncaught = [],
      logged = snd (wrappedCommand app commandFunc [ev]),
      invoked = 1\<rparr>"
proof -
  obtain r lg where w: "wrappedCommand app commandFunc [ev] = (r, lg)"
    by (cases "wrappedCommand app commandFunc [ev]")
  have "escapes r = []"
    using escapes_wrappedCommand[of app commandFunc "[ev]"] by (simp add: w)
  then show ?thesis
    by (simp add: click_def new_menuitem_def w)
qed

lemma clicks_no_listener:
  "click_listeners item = [] \<Longrightarrow>
   clicks app evs item = \<lparr>item_after = item, uncaught = [], logged = [], invoked = 0\<rparr>"
proof (induction evs)
  case Nil
  show ?case by simp
next
  case (Cons ev evs)
  have "click app ev item = \<lparr>item_after = item, uncaught = [], logged = [], invoked = 0\<rparr>"
    using Cons.prems by (simp add: click_def)
  then show ?case using Cons by (simp add: Let_def)
qed

lemma clicks_new_menuitem:
  "clicks app (ev # evs) (new_menuitem caption commandFunc key) =
     \<lparr>item_after = (new_menuitem caption commandFunc key)\<lparr>click_listeners := []\<rparr>,
      uncaught = [],
      logged = snd (wrappedCommand app commandFunc [ev]),
      invoked = 1\<rparr>"
  by (simp add: click_new_menuitem clicks_no_listener Let_def)

text \<open>
  C7. For a menu entry that \<^verbatim>\<open>GM_registerMenuCommand\<close> has created and returned, whatever the
  command function does when it is applied: no sequence of clicks lets an exception or a
  rejection reach the dispatcher, the handler runs at most once over all clicks (the first
  click removes the listener), and what the command function throws, or the rejection of
  the promise it returns, is logged by the handler.
\<close>

theorem menu_command_errors_are_caught_and_entry_fires_once:
  assumes "GM_registerMenuCommand w dm waited caption commandFunc key =
             (Fulfils (Some item), dm', lg)"
  shows "uncaught (clicks app evs item) = [] \<and>
         invoked (clicks app evs item) \<le> 1 \<and>
         click_listeners (item_after (click app ev item)) = [] \<and>
         logged (click app ev item) =
           (case await (fst (app commandFunc [ev])) of
              Raised e \<Rightarrow> [(''Menu command error:'', e)]
            | _ \<Rightarrow> [])"
proof -
  have item: "item = new_menuitem caption commandFunc key"
    using assms by (rule registered_item)
  have "uncaught (clicks app evs item) = [] \<and> invoked (clicks app evs item) \<le> 1"
    by (cases evs) (simp_all add: item clicks_new_menuitem del: clicks.simps(2))
  then show ?thesis
    by (simp add: item click_new_menuitem logged_wrappedCommand)
qed

theorem menu_command_errors_are_caught_and_entry_fires_once_witness:
  "uncaught (clicks throws_at_once [Str ''click'', Str ''click'']
       (new_menuitem (Str ''Run'') (native 1) Undefined)) = [] \<and>
   invoked (clicks throws_at_once [Str ''click'', Str ''click'']
       (new_menuitem (Str ''Run'') (native 1) Undefined)) \<le> 1 \<and>
   click_listeners (item_after (click throws_at_once (Str ''click'')
       (new_menuitem (Str ''Run'') (native 1) Undefined))) = [] \<and>
   logged (click throws_at_once (Str ''click'')
       (new_menuitem (Str ''Run'') (native 1) Undefined)) = [(''Menu command error:'', Error ''boom'')]"
proof -
  have r: "GM_registerMenuCommand unified_host empty_dom (Some (Fulfils (element ''BODY'')))
        (Str ''Run'') (native 1) Undefined =
      (Fulfils (Some (new_menuitem (Str ''Run'') (native 1) Undefined)),
       \<lparr>registered_menu = Some \<lparr>menu_id = menuId, menu_type = ''context'',
          data_gm_version = Some Undefined,
          children = [new_menuitem (Str ''Run'') (native 1) Undefined]\<rparr>,
        contextMenu = Some menuId\<rparr>, [])"
    by (simp add: GM_registerMenuCommand_def empty_dom_def read_GM_def lookup_global_def
        unified_host_def append_item_def Let_def)
  show ?thesis
    using menu_command_errors_are_caught_and_entry_fires_once[OF r, of throws_at_once
        "[Str ''click'', Str ''click'']" "Str ''click''"]
    by (simp add: throws_at_once_def del: clicks.simps)
qed

section \<open>The resource-text polyfill: the retry loop\<close>

lemma retry_step_fail:
  assumes "attempts < maxRetries" "Suc attempts \<noteq> maxRetries"
    "try_fetch wd attempts resourceId = Raised e"
  shows "retry_loop wd resourceId maxRetries attempts waits =
         retry_loop wd resourceId maxRetries (Suc attempts) (waits @ [2 ^ Suc attempts * 1000])"
  using assms by (subst retry_loop.simps) simp

lemma retry_step_last:
  assumes "attempts < maxRetries" "Suc attempts = maxRetries"
    "try_fetch wd attempts resourceId = Raised e"
  shows "retry_loop wd resourceId maxRetries attempts waits =
         \<lparr>returned = Fulfils Null, delays = waits, attempts_made = Suc attempts,
          final_error = Some e\<rparr>"
  using assms by (subst retry_loop.simps) simp

lemma retry_step_value:
  assumes "attempts < maxRetries" "try_fetch wd attempts resourceId = Value t"
  shows "retry_loop wd resourceId maxRetries attempts waits =
         \<lparr>returned = Fulfils t, delays = waits, attempts_made = Suc attempts,
          final_error = None\<rparr>"
  using assms by (subst retry_loop.simps) simp

text \<open>
  C5. Called without \<^verbatim>\<open>maxRetries\<close>: when the body of the \<^verbatim>\<open>try\<close> fails at the first two
  attempts and gives a text at the third, the polyfill is fulfilled with that text after
  three attempts, having waited 2000 and then 4000 milliseconds; when it fails at all
  three attempts, the polyfill makes exactly these three attempts, with the same two
  waits, logs the last error and is fulfilled with \<^verbatim>\<open>null\<close>: it neither throws nor rejects.
\<close>

theorem resource_text_retries_twice_then_gives_up:
  "(try_fetch wd 0 resourceId = Raised e0 \<and> try_fetch wd 1 resourceId = Raised e1 \<and>
    try_fetch wd 2 resourceId = Value t \<longrightarrow>
      GM_getResourceText wd resourceId None =
        \<lparr>returned = Fulfils t, delays = [2000, 4000], attempts_made = 3, final_error = None\<rparr>) \<and>
   (try_fetch wd 0 resourceId = Raised e0 \<and> try_fetch wd 1 resourceId = Raised e1 \<and>
    try_fetch wd 2 resourceId = Raised e2 \<longrightarrow>
      GM_getResourceText wd resourceId None =
        \<lparr>returned = Fulfils Null, delays = [2000, 4000], attempts_made = 3,
         final_error = Some e2\<rparr>)"
proof (intro conjI impI)
  assume a: "try_fetch wd 0 resourceId = Raised e0 \<and> try_fetch wd 1 resourceId = Raised e1 \<and>
    try_fetch wd 2 resourceId = Value t"
  have "retry_loop wd resourceId 3 0 [] = retry_loop wd resourceId 3 (Suc 0) [2000]"
    using a by (simp add: retry_step_fail[where e = e0])
  also have "\<dots> = retry_loop wd resourceId 3 (Suc (Suc 0)) [2000, 4000]"
    using a by (simp add: retry_step_fail[where e = e1])
  also have "\<dots> = \<lparr>returned = Fulfils t, delays = [2000, 4000], attempts_made = 3,
      final_error = None\<rparr>"
    using a by (simp add: retry_step_value numeral_2_eq_2)
  finally show "GM_getResourceText wd resourceId None =
        \<lparr>returned = Fulfils t, delays = [2000, 4000], attempts_made = 3, final_error = None\<rparr>"
    by (simp add: GM_getResourceText_def)
next
  assume a: "try_fetch wd 0 resourceId = Raised e0 \<and> try_fetch wd 1 resourceId = Raised e1 \<and>
    try_fetch wd 2 resourceId = Raised e2"
  have "retry_loop wd resourceId 3 0 [] = retry_loop wd resourceId 3 (Suc 0) [2000]"
    using a by (simp add: retry_step_fail[where e = e0])
  also have "\<dots> = retry_loop wd resourceId 3 (Suc (Suc 0)) [2000, 4000]"
    using a by (simp add: retry_step_fail[where e = e1])
  also have "\<dots> = \<lparr>returned = Fulfils Null, delays = [2000, 4000], attempts_made = 3,
      final_error = Some e2\<rparr>"
    using a by (simp add: retry_step_last[where e = e2] numeral_2_eq_2)
  finally show "GM_getResourceText wd resourceId None =
        \<lparr>returned = Fulfils Null, delays = [2000, 4000], attempts_made = 3,
         final_error = Some e2\<rparr>"
    by (simp add: GM_getResourceText_def)
qed

theorem resource_text_retries_twice_then_gives_up_witness:
  "GM_getResourceText third_time_lucky (Str ''r'') None =
     \<lparr>returned = Fulfils (Str ''text''), delays = [2000, 4000], attempts_made = 3,
      final_error = None\<rparr> \<and>
   GM_getResourceText always_404 (Str ''r'') None =
     \<lparr>returned = Fulfils Null, delays = [2000, 4000], attempts_made = 3,
      final_error = Some (Error ''HTTP error! status: 404'')\<rparr>"
proof -
  have d: "decimal 404 = ''404''"
    by (simp add: decimal.simps[of 404] decimal.simps[of 40] decimal.simps[of 4])
  show ?thesis
    using resource_text_retries_twice_then_gives_up
            [of third_time_lucky "Str ''r''" "Error ''no url''" "Error ''no url''" "Str ''text''"
                "Error ''no url''"]
          resource_text_retries_twice_then_gives_up
            [of always_404 "Str ''r''" "Error ''HTTP error! status: 404''"
                "Error ''HTTP error! status: 404''" "Str ''text''"
                "Error ''HTTP error! status: 404''"]
    by (simp add: try_fetch_def third_time_lucky_def always_404_def http_error_def d)
qed

end
